theory Spec2Isabelle
  imports Main
begin

section \<open>Data model of the event pipeline runner\<close>

text \<open>
  The development embeds \<^verbatim>\<open>EventPipelineRunner\<close> (the event-ingestion pipeline of the
  plugin server). Values of event properties are JSON values; only the distinction
  between the two booleans and everything else matters to the runner.
\<close>

datatype jsval =
    JUndefined
  | JNull
  | JBool bool
  | JNum int
  | JStr string
  | JArr "jsval list"
  | JObj "(string \<times> jsval) list"

text \<open>
  \<^verbatim>\<open>PipelineEvent\<close> is the event as it arrives (team id and token optional);
  \<^verbatim>\<open>PluginEvent\<close> is the event once its team is known. Only the fields the runner reads
  are kept. A token or team id that is \<^verbatim>\<open>undefined\<close> or \<^verbatim>\<open>null\<close> is \<open>None\<close>.
\<close>

record EventFields =
  distinct_id :: string
  event :: string
  uuid :: string
  properties :: "(string \<rightharpoonup> jsval) option"

record PipelineEvent = EventFields +
  token :: "string option"
  team_id :: "int option"

record PluginEvent = EventFields +
  plugin_team_id :: int

text \<open>
  What a stage can throw (\<^verbatim>\<open>err: any\<close>). A stage can reject with \<^verbatim>\<open>undefined\<close> or \<^verbatim>\<open>null\<close>,
  which have no properties. \<^verbatim>\<open>DependencyUnavailableError\<close> is the retryable kind
  (\<^verbatim>\<open>err instanceof DependencyUnavailableError\<close>); every other thrown value is \<open>OtherError\<close>
  with the text that \<^verbatim>\<open>new Error(err.message).message\<close> has: the message of an error object, the
  empty string for \<^verbatim>\<open>new Error()\<close> and for a value without a message.
\<close>

datatype step_error =
    ThrownUndefined
  | ThrownNull
  | DependencyUnavailableError (message: string)
  | OtherError (message: string)

definition nullish :: "step_error \<Rightarrow> bool" where
  "nullish err = (case err of ThrownUndefined \<Rightarrow> True | ThrownNull \<Rightarrow> True | _ \<Rightarrow> False)"

text \<open>
  Reading \<^verbatim>\<open>err.message\<close>: on \<^verbatim>\<open>undefined\<close> and \<^verbatim>\<open>null\<close> it raises a \<^verbatim>\<open>TypeError\<close>, itself an
  error object (with the text the engine gives it).
\<close>

definition readMessage :: "step_error \<Rightarrow> step_error + string" where
  "readMessage err =
     (case err of
        ThrownUndefined \<Rightarrow>
          Inl (OtherError ''Cannot read properties of undefined (reading 'message')'')
      | ThrownNull \<Rightarrow>
          Inl (OtherError ''Cannot read properties of null (reading 'message')'')
      | DependencyUnavailableError msg \<Rightarrow> Inr msg
      | OtherError msg \<Rightarrow> Inr msg)"

text \<open>An awaited call of an external function either returns or throws.\<close>

datatype 'a outcome = Returns 'a | Throws step_error

text \<open>
  The dead-letter message builder \<^verbatim>\<open>generateEventDeadLetterQueueMessage\<close> and the warning
  emitter \<^verbatim>\<open>captureIngestionWarning\<close> are outside the runner; a message and a warning are
  represented by the arguments they were built from. The builder is taken to return; a
  throw inside it would be caught by the same \<^verbatim>\<open>catch\<close> as a refused write.
\<close>

record dlq_message =
  dlq_event :: PipelineEvent
  dlq_error :: step_error
  dlq_team_id :: int
  dlq_error_location :: string

record ingestion_warning =
  warning_team_id :: int
  warning_type :: string
  warning_details :: "(string \<times> jsval) list"
  alwaysSend :: bool

text \<open>
  An acknowledgement handle (\<^verbatim>\<open>Promise<void>\<close>) is either the one returned by the warning
  emitter for a given warning, or the one returned by the event creation stage.
\<close>

datatype 'ak ack = WarningAck ingestion_warning | EventAck 'ak

text \<open>
  The parts of \<^verbatim>\<open>Hub\<close> the runner uses. \<open>queueMessage\<close> is
  \<^verbatim>\<open>hub.db.kafkaProducer.queueMessage\<close> with \<^verbatim>\<open>waitForAck: true\<close>, awaited.
\<close>

record Hub =
  eventsToDropByToken :: "(string \<rightharpoonup> string list) option"
  poeEmbraceJoinForTeams :: "(int \<Rightarrow> bool) option"
  POE_WRITES_ENABLED_MAX_TEAM_ID :: int
  poeWritesExcludeTeams :: "int \<Rightarrow> bool"
  PIPELINE_STEP_STALLED_LOG_TIMEOUT :: int
  queueMessage :: "dlq_message \<Rightarrow> unit outcome"

text \<open>The fields of the class \<^verbatim>\<open>EventPipelineRunner\<close>.\<close>

record EventPipelineRunner =
  hub :: Hub
  originalEvent :: PipelineEvent
  poEEmbraceJoin :: bool

text \<open>
  The \<^verbatim>\<open>any[]\<close> argument lists. \<open>AThis\<close> is the reference to the runner itself; the type
  parameters are the timestamp, the person, the prepared event and the stored event,
  all produced by stages outside the runner.
\<close>

datatype ('ts, 'pn, 'pi, 'rc) arg =
    AThis
  | APipelineEvent PipelineEvent
  | APluginEvent PluginEvent
  | ABool bool
  | ATimestamp 'ts
  | APerson 'pn
  | APrepared 'pi
  | ARawEvent 'rc

text \<open>
  Everything the runner does to the outside world, in the order it does it: counters,
  spans, the stall timer, the call of a stage with its arguments (\<^verbatim>\<open>step(...args)\<close>), logs,
  error reports, dead-letter writes and warnings.
\<close>

datatype ('ts, 'pn, 'pi, 'rc) effect =
    EventDroppedCounter string string
  | PipelineLastStepCounter string
  | EventProcessedAndIngestedCounter
  | RunStepSpan string
  | TimeoutGuardArmed string int
  | StepCalled string "('ts, 'pn, 'pi, 'rc) arg list"
  | TimeoutCleared
  | PipelineStepMsSummary string
  | StepFailedLogged string step_error
  | SentryCaptured step_error string
  | PipelineStepErrorCounter string
  | PipelineStepThrowCounter string
  | PipelineStepDLQCounter string
  | QueueMessage dlq_message
  | DlqFailureLogged step_error
  | SentryCapturedDlq step_error
  | IngestionWarningCaptured ingestion_warning

record ('ts, 'pn, 'pi, 'rc, 'ak) EventPipelineResult =
  ackPromises :: "'ak ack list option"
  lastStep :: string
  args :: "('ts, 'pn, 'pi, 'rc) arg list"
  error :: "string option"

text \<open>
  What can be thrown inside the runner: the private \<^verbatim>\<open>StepErrorNoRetry\<close> (step, args,
  message), or an error of a stage, re-raised as it is.
\<close>

datatype ('ts, 'pn, 'pi, 'rc) thrown =
    StepErrorNoRetry string "('ts, 'pn, 'pi, 'rc) arg list" string
  | Raised step_error

text \<open>
  The imported stage functions and \<^verbatim>\<open>normalizeProcessPerson\<close>. A stage that takes the
  runner reads it and does not assign its fields.
\<close>

record ('ts, 'pn, 'pi, 'rc, 'ak) stages =
  populateTeamDataStep :: "EventPipelineRunner \<Rightarrow> PipelineEvent \<Rightarrow> PluginEvent option outcome"
  pluginsProcessEventStep ::
    "EventPipelineRunner \<Rightarrow> PluginEvent \<Rightarrow> bool \<Rightarrow> PluginEvent option outcome"
  normalizeEventStep :: "PluginEvent \<Rightarrow> bool \<Rightarrow> (PluginEvent \<times> 'ts) outcome"
  processPersonsStep ::
    "EventPipelineRunner \<Rightarrow> PluginEvent \<Rightarrow> 'ts \<Rightarrow> bool \<Rightarrow> (PluginEvent \<times> 'pn) outcome"
  prepareEventStep :: "EventPipelineRunner \<Rightarrow> PluginEvent \<Rightarrow> bool \<Rightarrow> 'pi outcome"
  createEventStep :: "EventPipelineRunner \<Rightarrow> 'pi \<Rightarrow> 'pn \<Rightarrow> bool \<Rightarrow> ('rc \<times> 'ak) outcome"
  normalizeProcessPerson :: "PluginEvent \<Rightarrow> bool \<Rightarrow> PluginEvent"

section \<open>Sequencing\<close>

text \<open>
  A method of the runner takes the runner and gives back what it returned or threw, the
  runner afterwards, and the effects it had. \<open>bindM\<close> is \<^verbatim>\<open>await\<close> followed by the rest
  of the function body: a throw skips the rest.
\<close>

type_synonym ('a, 'x, 'f) pipe =
  "EventPipelineRunner \<Rightarrow> ('x + 'a) \<times> EventPipelineRunner \<times> 'f list"

type_synonym ('a, 'ts, 'pn, 'pi, 'rc) runnerMethod =
  "('a, ('ts, 'pn, 'pi, 'rc) thrown, ('ts, 'pn, 'pi, 'rc) effect) pipe"

definition returnM :: "'a \<Rightarrow> ('a, 'x, 'f) pipe" where
  "returnM v this = (Inr v, this, [])"

definition emit :: "'f \<Rightarrow> (unit, 'x, 'f) pipe" where
  "emit e this = (Inr (), this, [e])"

definition bindM ::
  "('a, 'x, 'f) pipe \<Rightarrow> ('a \<Rightarrow> ('b, 'x, 'f) pipe) \<Rightarrow> ('b, 'x, 'f) pipe" where
  "bindM m f this =
     (case m this of
        (Inl x, this', fx) \<Rightarrow> (Inl x, this', fx)
      | (Inr v, this', fx) \<Rightarrow>
          (case f v this' of (res, this'', fx') \<Rightarrow> (res, this'', fx @ fx')))"

section \<open>The runner\<close>

text \<open>\<^verbatim>\<open>Number.prototype.toString\<close> on an integer: its decimal digits.\<close>

function nat_toString :: "nat \<Rightarrow> string" where
  "nat_toString n =
     (if n < 10 then [''0123456789'' ! n]
      else nat_toString (n div 10) @ [''0123456789'' ! (n mod 10)])"
  by pat_completeness auto
termination
  by (relation "measure id") auto

declare nat_toString.simps [simp del]

definition toString :: "int \<Rightarrow> string" where
  "toString i = (if i < 0 then CHR ''-'' # nat_toString (nat (- i)) else nat_toString (nat i))"

definition new_EventPipelineRunner :: "Hub \<Rightarrow> PipelineEvent \<Rightarrow> bool \<Rightarrow> EventPipelineRunner" where
  "new_EventPipelineRunner h ev poe = \<lparr>hub = h, originalEvent = ev, poEEmbraceJoin = poe\<rparr>"

text \<open>
  \<^verbatim>\<open>isEventDisallowed\<close>. The key is \<^verbatim>\<open>event.token || event.team_id?.toString()\<close>: an empty
  token is falsy, so it falls through to the team id; \<^verbatim>\<open>!key\<close> holds for a missing key
  and for an empty one.
\<close>

definition isEventDisallowed :: "EventPipelineRunner \<Rightarrow> PipelineEvent \<Rightarrow> bool" where
  "isEventDisallowed this ev =
     (let key = (case token ev of
                   Some t \<Rightarrow> if t \<noteq> [] then Some t else map_option toString (team_id ev)
                 | None \<Rightarrow> map_option toString (team_id ev))
      in case key of
           None \<Rightarrow> False
         | Some k \<Rightarrow>
             if k = [] then False
             else (case eventsToDropByToken (hub this) of
                     None \<Rightarrow> False
                   | Some m \<Rightarrow>
                       (case m k of
                          None \<Rightarrow> False
                        | Some dropIds \<Rightarrow> distinct_id ev \<in> set dropIds \<or> ''*'' \<in> set dropIds)))"

definition registerLastStep ::
  "string \<Rightarrow> ('ts, 'pn, 'pi, 'rc) arg list \<Rightarrow> 'ak ack list option \<Rightarrow>
   (('ts, 'pn, 'pi, 'rc, 'ak) EventPipelineResult, 'ts, 'pn, 'pi, 'rc) runnerMethod" where
  "registerLastStep stepName as acks this =
     (Inr \<lparr>ackPromises = acks, lastStep = stepName, args = as, error = None\<rparr>,
      this, [PipelineLastStepCounter stepName])"

definition shouldRetry :: "step_error \<Rightarrow> bool" where
  "shouldRetry err = (case err of DependencyUnavailableError _ \<Rightarrow> True | _ \<Rightarrow> False)"

text \<open>
  \<^verbatim>\<open>handleError\<close> never returns: it re-raises a retryable error, and otherwise writes to
  the dead-letter queue (when asked to), swallows a failure of that write, and throws
  \<^verbatim>\<open>new StepErrorNoRetry(currentStepName, currentArgs, err.message)\<close>; reading the message
  is the last thing it does, and where that raises, the \<^verbatim>\<open>TypeError\<close> is what is thrown.
\<close>

definition handleError ::
  "step_error \<Rightarrow> string \<Rightarrow> ('ts, 'pn, 'pi, 'rc) arg list \<Rightarrow> int \<Rightarrow> bool \<Rightarrow>
   ('a, 'ts, 'pn, 'pi, 'rc) runnerMethod" where
  "handleError err currentStepName currentArgs teamId sentToDql this =
     (let reported = [StepFailedLogged currentStepName err,
                      SentryCaptured err currentStepName,
                      PipelineStepErrorCounter currentStepName]
      in if shouldRetry err then
           (Inl (Raised err), this, reported @ [PipelineStepThrowCounter currentStepName])
         else
           (let dlq =
                  (if sentToDql then
                     (let msg = \<lparr>dlq_event = originalEvent this, dlq_error = err,
                                 dlq_team_id = teamId,
                                 dlq_error_location =
                                   ''plugin_server_ingest_event:'' @ currentStepName\<rparr>
                      in [PipelineStepDLQCounter currentStepName, QueueMessage msg] @
                         (case queueMessage (hub this) msg of
                            Returns _ \<Rightarrow> []
                          | Throws dlqError \<Rightarrow>
                              [DlqFailureLogged dlqError, SentryCapturedDlq dlqError]))
                   else [])
            in case readMessage err of
                 Inl typeError \<Rightarrow> (Inl (Raised typeError), this, reported @ dlq)
               | Inr msg \<Rightarrow>
                   (Inl (StepErrorNoRetry currentStepName currentArgs msg), this,
                    reported @ dlq)))"

text \<open>
  \<^verbatim>\<open>runStep\<close>: the stage is called inside a span with the stall timer armed; the timer
  only logs, and is cleared in the \<^verbatim>\<open>finally\<close> block on both ways out.
\<close>

definition runStep ::
  "string \<Rightarrow> (EventPipelineRunner \<Rightarrow> 'a outcome) \<Rightarrow> ('ts, 'pn, 'pi, 'rc) arg list \<Rightarrow> int \<Rightarrow>
   bool \<Rightarrow> ('a, 'ts, 'pn, 'pi, 'rc) runnerMethod" where
  "runStep name step as teamId sentToDql this =
     (case step this of
        Returns result \<Rightarrow>
          (Inr result, this,
           [RunStepSpan name, TimeoutGuardArmed name teamId, StepCalled name as,
            PipelineStepMsSummary name, TimeoutCleared])
      | Throws err \<Rightarrow>
          (case handleError err name as teamId sentToDql this of
             (res, this', fx) \<Rightarrow>
               (res, this',
                [RunStepSpan name, TimeoutGuardArmed name teamId, StepCalled name as] @ fx @
                [TimeoutCleared])))"

definition captureIngestionWarning ::
  "int \<Rightarrow> string \<Rightarrow> (string \<times> jsval) list \<Rightarrow> bool \<Rightarrow>
   ('ak ack, 'ts, 'pn, 'pi, 'rc) runnerMethod" where
  "captureIngestionWarning teamId type details always this =
     (let w = \<lparr>warning_team_id = teamId, warning_type = type, warning_details = details,
               alwaysSend = always\<rparr>
      in (Inr (WarningAck w), this, [IngestionWarningCaptured w]))"

text \<open>
  \<^verbatim>\<open>runEventPipelineSteps\<close> from the \<^verbatim>\<open>$$client_ingestion_warning\<close> test to its end: the
  event, the person-processing flag and the acknowledgements collected so far are the
  local variables at that point.
\<close>

definition runStages ::
  "('ts, 'pn, 'pi, 'rc, 'ak) stages \<Rightarrow> PluginEvent \<Rightarrow> bool \<Rightarrow> 'ak ack list \<Rightarrow>
   (('ts, 'pn, 'pi, 'rc, 'ak) EventPipelineResult, 'ts, 'pn, 'pi, 'rc) runnerMethod" where
  "runStages st ev processPerson kafkaAcks =
     (if event ev = ''$$client_ingestion_warning'' then
        bindM (captureIngestionWarning (plugin_team_id ev) ''client_ingestion_warning''
                 [(''eventUuid'', JStr (uuid ev)), (''event'', JStr (event ev)),
                  (''distinctId'', JStr (distinct_id ev)),
                  (''message'',
                     (case properties ev of
                        None \<Rightarrow> JUndefined
                      | Some props \<Rightarrow>
                          (case props ''$$client_ingestion_warning_message'' of
                             None \<Rightarrow> JUndefined
                           | Some v \<Rightarrow> v)))]
                 True)
          (\<lambda>a. registerLastStep ''clientIngestionWarning'' [APluginEvent ev]
                  (Some (kafkaAcks @ [a])))
      else
        (let runDeprecatedPlugins = processPerson in
         bindM (runStep ''pluginsProcessEventStep''
                  (\<lambda>this. pluginsProcessEventStep st this ev runDeprecatedPlugins)
                  [AThis, APluginEvent ev, ABool runDeprecatedPlugins] (plugin_team_id ev) True)
           (\<lambda>processedEvent.
              case processedEvent of
                None \<Rightarrow>
                  registerLastStep ''pluginsProcessEventStep'' [APluginEvent ev] (Some kafkaAcks)
              | Some processed \<Rightarrow>
                  bindM (runStep ''normalizeEventStep''
                           (\<lambda>this. normalizeEventStep st processed processPerson)
                           [APluginEvent processed, ABool processPerson] (plugin_team_id ev) True)
                    (\<lambda>(normalizedEvent, timestamp).
                       bindM (runStep ''processPersonsStep''
                                (\<lambda>this. processPersonsStep st this normalizedEvent timestamp
                                          processPerson)
                                [AThis, APluginEvent normalizedEvent, ATimestamp timestamp,
                                 ABool processPerson]
                                (plugin_team_id ev) True)
                         (\<lambda>(postPersonEvent, person).
                            bindM (runStep ''prepareEventStep''
                                     (\<lambda>this. prepareEventStep st this postPersonEvent
                                               processPerson)
                                     [AThis, APluginEvent postPersonEvent, ABool processPerson]
                                     (plugin_team_id ev) True)
                              (\<lambda>preparedEvent.
                                 bindM (runStep ''createEventStep''
                                          (\<lambda>this. createEventStep st this preparedEvent person
                                                    processPerson)
                                          [AThis, APrepared preparedEvent, APerson person,
                                           ABool processPerson]
                                          (plugin_team_id ev) True)
                                   (\<lambda>(rawClickhouseEvent, eventAck).
                                      registerLastStep ''createEventStep''
                                        [ARawEvent rawClickhouseEvent]
                                        (Some (kafkaAcks @ [EventAck eventAck])))))))))"

text \<open>
  The condition of the embrace-join routing check at the head of
  \<^verbatim>\<open>runEventPipelineSteps\<close>; \<^verbatim>\<open>poeEmbraceJoinForTeams\<close> is an optional function of the hub.
\<close>

definition embraceJoinTeam :: "Hub \<Rightarrow> int \<Rightarrow> bool" where
  "embraceJoinTeam h teamId =
     ((case poeEmbraceJoinForTeams h of None \<Rightarrow> False | Some f \<Rightarrow> f teamId) \<or>
      (teamId \<le> POE_WRITES_ENABLED_MAX_TEAM_ID h \<and> \<not> poeWritesExcludeTeams h teamId))"

text \<open>
  \<^verbatim>\<open>runEventPipelineSteps\<close> up to that point: the embrace-join routing check, then the
  derivation of the person-processing flag from \<^verbatim>\<open>$process_person\<close>.
\<close>

definition runEventPipelineSteps ::
  "('ts, 'pn, 'pi, 'rc, 'ak) stages \<Rightarrow> PluginEvent \<Rightarrow>
   (('ts, 'pn, 'pi, 'rc, 'ak) EventPipelineResult, 'ts, 'pn, 'pi, 'rc) runnerMethod" where
  "runEventPipelineSteps st ev this0 =
     (let this =
            (if embraceJoinTeam (hub this0) (plugin_team_id ev)
             then this0\<lparr>poEEmbraceJoin := True\<rparr>
             else this0)
      in case (case properties ev of None \<Rightarrow> None | Some props \<Rightarrow> props ''$process_person'') of
           None \<Rightarrow> runStages st ev True [] this
         | Some propValue \<Rightarrow>
             if propValue = JBool True then runStages st ev True [] this
             else if propValue = JBool False then
               (if event ev \<in> set [''$identify'', ''$create_alias'', ''$merge_dangerously'',
                                   ''$groupidentify'']
                then
                  bindM (captureIngestionWarning (plugin_team_id ev)
                           ''invalid_event_when_process_person_is_false''
                           [(''eventUuid'', JStr (uuid ev)), (''event'', JStr (event ev)),
                            (''distinctId'', JStr (distinct_id ev))]
                           True)
                    (\<lambda>a. registerLastStep ''invalidEventForProvidedFlags'' [APluginEvent ev]
                            (Some [a]))
                    this
                else runStages st (normalizeProcessPerson st ev False) False [] this)
             else
               bindM (captureIngestionWarning (plugin_team_id ev) ''invalid_process_person''
                        [(''eventUuid'', JStr (uuid ev)), (''event'', JStr (event ev)),
                         (''distinctId'', JStr (distinct_id ev)),
                         (''$process_person'', propValue),
                         (''message'',
                            JStr ''Only a boolean value is valid for the $process_person property'')]
                        False)
                 (\<lambda>a. runStages st ev True [a])
                 this)"

text \<open>
  \<^verbatim>\<open>runEventPipeline\<close>: the body of the \<^verbatim>\<open>try\<close> block, then the \<^verbatim>\<open>catch\<close>. The team id
  handed to the first stage is \<^verbatim>\<open>event.team_id || -1\<close>, so a missing team id and the
  team id 0 both give -1.
\<close>

definition runEventPipeline_try ::
  "('ts, 'pn, 'pi, 'rc, 'ak) stages \<Rightarrow> PipelineEvent \<Rightarrow>
   (('ts, 'pn, 'pi, 'rc, 'ak) EventPipelineResult, 'ts, 'pn, 'pi, 'rc) runnerMethod" where
  "runEventPipeline_try st ev this =
     (if isEventDisallowed this ev then
        bindM (emit (EventDroppedCounter ''analytics'' ''disallowed''))
          (\<lambda>_. registerLastStep ''eventDisallowedStep'' [APipelineEvent ev] None) this
      else
        bindM (runStep ''populateTeamDataStep'' (\<lambda>r. populateTeamDataStep st r ev)
                 [AThis, APipelineEvent ev]
                 (case team_id ev of None \<Rightarrow> - 1 | Some n \<Rightarrow> if n = 0 then - 1 else n) True)
          (\<lambda>eventWithTeam.
             bindM (case eventWithTeam of
                      Some withTeam \<Rightarrow> runEventPipelineSteps st withTeam
                    | None \<Rightarrow> registerLastStep ''populateTeamDataStep'' [APipelineEvent ev] None)
               (\<lambda>result. bindM (emit EventProcessedAndIngestedCounter) (\<lambda>_. returnM result)))
          this)"

definition runEventPipeline ::
  "('ts, 'pn, 'pi, 'rc, 'ak) stages \<Rightarrow> PipelineEvent \<Rightarrow>
   (('ts, 'pn, 'pi, 'rc, 'ak) EventPipelineResult, 'ts, 'pn, 'pi, 'rc) runnerMethod" where
  "runEventPipeline st ev this0 =
     (case runEventPipeline_try st ev (this0\<lparr>originalEvent := ev\<rparr>) of
        (Inr result, this, fx) \<Rightarrow> (Inr result, this, fx)
      | (Inl (StepErrorNoRetry step _ msg), this, fx) \<Rightarrow>
          (Inr \<lparr>ackPromises = None, lastStep = step, args = [], error = Some msg\<rparr>, this, fx)
      | (Inl (Raised err), this, fx) \<Rightarrow>
          (Inl (Raised err), this, fx @ [SentryCaptured err ''outside'']))"

section \<open>Reading the effects of a run\<close>

text \<open>
  What the theorems below read off the effects of a run: the stage failures that
  \<^verbatim>\<open>handleError\<close> logged (\<^verbatim>\<open>step_failed\<close> with the step name and the error; this is the
  first thing the \<^verbatim>\<open>catch\<close> block of \<^verbatim>\<open>runStep\<close> does with an error a stage raised), the
  dead-letter writes handed to the producer, the stages that were started, the warnings
  that were emitted, and the stage calls with their arguments.
\<close>

definition stepFailures :: "('ts, 'pn, 'pi, 'rc) effect list \<Rightarrow> (string \<times> step_error) list" where
  "stepFailures fx = [(n, e). StepFailedLogged n e \<leftarrow> fx]"

definition dlqWrites :: "('ts, 'pn, 'pi, 'rc) effect list \<Rightarrow> dlq_message list" where
  "dlqWrites fx = [m. QueueMessage m \<leftarrow> fx]"

definition stagesRun :: "('ts, 'pn, 'pi, 'rc) effect list \<Rightarrow> string list" where
  "stagesRun fx = [n. RunStepSpan n \<leftarrow> fx]"

definition warnings :: "('ts, 'pn, 'pi, 'rc) effect list \<Rightarrow> ingestion_warning list" where
  "warnings fx = [w. IngestionWarningCaptured w \<leftarrow> fx]"

definition stageCalls ::
  "('ts, 'pn, 'pi, 'rc) effect list \<Rightarrow> (string \<times> ('ts, 'pn, 'pi, 'rc) arg list) list" where
  "stageCalls fx = [(n, as). StepCalled n as \<leftarrow> fx]"

text \<open>
  How a call inside the \<^verbatim>\<open>try\<close> block can end, with what its effects then show: it
  returned and no stage failed; or it threw \<^verbatim>\<open>StepErrorNoRetry\<close> for the one stage that
  failed with a non-retryable error, after one dead-letter write for that error and that
  stage; or it re-raised the retryable error of the one stage that failed, with no
  dead-letter write; or the one stage that failed threw \<^verbatim>\<open>undefined\<close> or \<^verbatim>\<open>null\<close>, and after
  the dead-letter write the \<^verbatim>\<open>TypeError\<close> of reading its message was thrown.
\<close>

definition settled ::
  "(('ts, 'pn, 'pi, 'rc) thrown + 'a) \<times> EventPipelineRunner \<times> ('ts, 'pn, 'pi, 'rc) effect list
   \<Rightarrow> bool" where
  "settled out =
     (case out of
        (Inr _, _, fx) \<Rightarrow> stepFailures fx = [] \<and> dlqWrites fx = []
      | (Inl (StepErrorNoRetry n _ msg), _, fx) \<Rightarrow>
          (\<exists>e m. stepFailures fx = [(n, e)] \<and> \<not> shouldRetry e \<and> \<not> nullish e \<and>
                 msg = message e \<and> dlqWrites fx = [m] \<and> dlq_error m = e \<and>
                 dlq_error_location m = ''plugin_server_ingest_event:'' @ n)
      | (Inl (Raised x), _, fx) \<Rightarrow>
          ((\<exists>n. stepFailures fx = [(n, x)]) \<and> shouldRetry x \<and> dlqWrites fx = []) \<or>
          (\<exists>n e m. stepFailures fx = [(n, e)] \<and> nullish e \<and> readMessage e = Inl x \<and>
                   dlqWrites fx = [m] \<and> dlq_error m = e \<and>
                   dlq_error_location m = ''plugin_server_ingest_event:'' @ n))"

text \<open>
  What \<^verbatim>\<open>registerLastStep\<close> is given as \<^verbatim>\<open>args\<close>, by the step it is called for: the input
  event, the event of the main sequence, or the record that \<^verbatim>\<open>createEventStep\<close> returned.
\<close>

definition terminalArgs ::
  "('ts, 'pn, 'pi, 'rc, 'ak) stages \<Rightarrow> PipelineEvent \<Rightarrow> string \<Rightarrow> ('ts, 'pn, 'pi, 'rc) arg list
   \<Rightarrow> bool" where
  "terminalArgs st ev n as =
     ((n \<in> {''eventDisallowedStep'', ''populateTeamDataStep''} \<and> as = [APipelineEvent ev]) \<or>
      (n \<in> {''invalidEventForProvidedFlags'', ''clientIngestionWarning'',
             ''pluginsProcessEventStep''} \<and> (\<exists>pe. as = [APluginEvent pe])) \<or>
      (n = ''createEventStep'' \<and>
       (\<exists>raw this prepared person processPerson eventAck.
          as = [ARawEvent raw] \<and>
          createEventStep st this prepared person processPerson = Returns (raw, eventAck))))"

text \<open>A result without an error message whose \<^verbatim>\<open>args\<close> is what its last step registers.\<close>

definition plainResult ::
  "('ts, 'pn, 'pi, 'rc, 'ak) stages \<Rightarrow> PipelineEvent \<Rightarrow>
   ('x + ('ts, 'pn, 'pi, 'rc, 'ak) EventPipelineResult) \<times> EventPipelineRunner \<times> 'f list
   \<Rightarrow> bool" where
  "plainResult st ev out =
     (case out of
        (Inr r, _, _) \<Rightarrow> error r = None \<and> terminalArgs st ev (lastStep r) (args r)
      | (Inl _, _, _) \<Rightarrow> True)"

text \<open>Adding acknowledgements in front of those of a returned result.\<close>

definition withAcks ::
  "'ak ack list \<Rightarrow> 'x + ('ts, 'pn, 'pi, 'rc, 'ak) EventPipelineResult \<Rightarrow>
   'x + ('ts, 'pn, 'pi, 'rc, 'ak) EventPipelineResult" where
  "withAcks acks res =
     (case res of
        Inl x \<Rightarrow> Inl x
      | Inr r \<Rightarrow> Inr (r\<lparr>ackPromises := map_option (\<lambda>as. acks @ as) (ackPromises r)\<rparr>))"

text \<open>What a call gave back: what it returned or threw, the runner, the effects.\<close>

abbreviation outcomeOf :: "'r \<times> EventPipelineRunner \<times> 'f list \<Rightarrow> 'r" where
  "outcomeOf out \<equiv> fst out"

abbreviation runnerOf :: "'r \<times> EventPipelineRunner \<times> 'f list \<Rightarrow> EventPipelineRunner" where
  "runnerOf out \<equiv> fst (snd out)"

abbreviation effectsOf :: "'r \<times> EventPipelineRunner \<times> 'f list \<Rightarrow> 'f list" where
  "effectsOf out \<equiv> snd (snd out)"

text \<open>
  Between the runner before a call and after it, at most the embrace-join flag was
  switched on.
\<close>

definition flagRaisedOnly :: "EventPipelineRunner \<Rightarrow> EventPipelineRunner \<Rightarrow> bool" where
  "flagRaisedOnly this this' = (this' = this \<or> this' = this\<lparr>poEEmbraceJoin := True\<rparr>)"

text \<open>
  Every dead-letter write carries the original event, and every one that the producer
  refused was logged and reported.
\<close>

definition dlqReported ::
  "Hub \<Rightarrow> PipelineEvent \<Rightarrow> 'r \<times> EventPipelineRunner \<times> ('ts, 'pn, 'pi, 'rc) effect list
   \<Rightarrow> bool" where
  "dlqReported h ev0 out =
     (\<forall>m \<in> set (dlqWrites (effectsOf out)).
        dlq_event m = ev0 \<and>
        (\<forall>d. queueMessage h m = Throws d \<longrightarrow>
           DlqFailureLogged d \<in> set (effectsOf out) \<and> SentryCapturedDlq d \<in> set (effectsOf out)))"

text \<open>
  The same call with acknowledgements added in front of those of its result, and a call
  that emitted no best-effort warning.
\<close>

definition addAcks ::
  "'ak ack list \<Rightarrow> (('ts, 'pn, 'pi, 'rc, 'ak) EventPipelineResult, 'x, 'f) pipe \<Rightarrow>
   (('ts, 'pn, 'pi, 'rc, 'ak) EventPipelineResult, 'x, 'f) pipe" where
  "addAcks acks m this = (case m this of (res, this', fx) \<Rightarrow> (withAcks acks res, this', fx))"

definition onlyAlwaysSend ::
  "'r \<times> EventPipelineRunner \<times> ('ts, 'pn, 'pi, 'rc) effect list \<Rightarrow> bool" where
  "onlyAlwaysSend out = (\<forall>w \<in> set (warnings (effectsOf out)). alwaysSend w)"

text \<open>No stage was called with a flag that is false.\<close>

definition flagsOn ::
  "'r \<times> EventPipelineRunner \<times> ('ts, 'pn, 'pi, 'rc) effect list \<Rightarrow> bool" where
  "flagsOn out = (\<forall>call \<in> set (stageCalls (effectsOf out)). ABool False \<notin> set (snd call))"

section \<open>A concrete configuration\<close>

text \<open>
  A hub with a drop list for one token, an event of team 1, and stages that all succeed;
  the theorems are instantiated on these and on variants where one stage raises.
\<close>

definition exampleHub :: Hub where
  "exampleHub =
     \<lparr>eventsToDropByToken = Some [''phc_blocked'' \<mapsto> [''spammer'']],
      poeEmbraceJoinForTeams = None,
      POE_WRITES_ENABLED_MAX_TEAM_ID = 0,
      poeWritesExcludeTeams = (\<lambda>_. False),
      PIPELINE_STEP_STALLED_LOG_TIMEOUT = 30,
      queueMessage = (\<lambda>_. Returns ())\<rparr>"

definition exampleEvent :: PipelineEvent where
  "exampleEvent =
     \<lparr>distinct_id = ''u1'', event = ''pageview'', uuid = ''x'', properties = Some Map.empty,
      token = None, team_id = Some 1\<rparr>"

definition exampleRunner :: EventPipelineRunner where
  "exampleRunner = new_EventPipelineRunner exampleHub exampleEvent False"

definition resolveTeam :: "PipelineEvent \<Rightarrow> PluginEvent" where
  "resolveTeam e =
     \<lparr>distinct_id = distinct_id e, event = event e, uuid = uuid e, properties = properties e,
      plugin_team_id = (case team_id e of None \<Rightarrow> 0 | Some n \<Rightarrow> n)\<rparr>"

definition passingStages :: "(nat, string, PluginEvent, PluginEvent, nat) stages" where
  "passingStages =
     \<lparr>populateTeamDataStep = (\<lambda>_ e. Returns (Some (resolveTeam e))),
      pluginsProcessEventStep = (\<lambda>_ e _. Returns (Some e)),
      normalizeEventStep = (\<lambda>e _. Returns (e, 0)),
      processPersonsStep = (\<lambda>_ e _ _. Returns (e, ''person'')),
      prepareEventStep = (\<lambda>_ e _. Returns e),
      createEventStep = (\<lambda>_ p _ _. Returns (p, 7)),
      normalizeProcessPerson = (\<lambda>e _. e)\<rparr>"

definition failingStages :: "(nat, string, PluginEvent, PluginEvent, nat) stages" where
  "failingStages = passingStages\<lparr>prepareEventStep := (\<lambda>_ _ _. Throws (OtherError ''boom''))\<rparr>"

definition unavailableStages :: "(nat, string, PluginEvent, PluginEvent, nat) stages" where
  "unavailableStages =
     passingStages\<lparr>processPersonsStep :=
       (\<lambda>_ _ _ _. Throws (DependencyUnavailableError ''postgres unavailable''))\<rparr>"

definition silentStages :: "(nat, string, PluginEvent, PluginEvent, nat) stages" where
  "silentStages = passingStages\<lparr>prepareEventStep := (\<lambda>_ _ _. Throws (OtherError []))\<rparr>"

definition undefinedStages :: "(nat, string, PluginEvent, PluginEvent, nat) stages" where
  "undefinedStages = passingStages\<lparr>prepareEventStep := (\<lambda>_ _ _. Throws ThrownUndefined)\<rparr>"

definition refusingHub :: Hub where
  "refusingHub = exampleHub\<lparr>queueMessage := (\<lambda>_. Throws (OtherError ''kafka down''))\<rparr>"

definition refusingRunner :: EventPipelineRunner where
  "refusingRunner = new_EventPipelineRunner refusingHub exampleEvent False"

definition blockedEvent :: PipelineEvent where
  "blockedEvent = exampleEvent\<lparr>distinct_id := ''spammer'', token := Some ''phc_blocked''\<rparr>"

definition anonymousEvent :: PipelineEvent where
  "anonymousEvent = exampleEvent\<lparr>distinct_id := ''spammer'', team_id := None\<rparr>"

definition wildcardHub :: Hub where
  "wildcardHub = exampleHub\<lparr>eventsToDropByToken := Some (\<lambda>_. Some [''*''])\<rparr>"

definition identifyEvent :: PluginEvent where
  "identifyEvent =
     \<lparr>distinct_id = ''u1'', event = ''$identify'', uuid = ''x'',
      properties = Some [''$process_person'' \<mapsto> JBool False], plugin_team_id = 1\<rparr>"

definition yesEvent :: PluginEvent where
  "yesEvent =
     \<lparr>distinct_id = ''u1'', event = ''pageview'', uuid = ''x'',
      properties = Some [''$process_person'' \<mapsto> JStr ''yes''], plugin_team_id = 1\<rparr>"

definition routedHub :: Hub where
  "routedHub = exampleHub\<lparr>POE_WRITES_ENABLED_MAX_TEAM_ID := 5\<rparr>"

section \<open>Lemmas on the effects and on sequencing\<close>

lemma stepFailures_append [simp]: "stepFailures (a @ b) = stepFailures a @ stepFailures b"
  by (simp add: stepFailures_def)
lemma dlqWrites_append [simp]: "dlqWrites (a @ b) = dlqWrites a @ dlqWrites b"
  by (simp add: dlqWrites_def)
lemma stagesRun_append [simp]: "stagesRun (a @ b) = stagesRun a @ stagesRun b"
  by (simp add: stagesRun_def)
lemma warnings_append [simp]: "warnings (a @ b) = warnings a @ warnings b"
  by (simp add: warnings_def)
lemma stageCalls_append [simp]: "stageCalls (a @ b) = stageCalls a @ stageCalls b"
  by (simp add: stageCalls_def)

lemma stepFailures_Nil [simp]: "stepFailures [] = []"
  by (simp add: stepFailures_def)
lemma dlqWrites_Nil [simp]: "dlqWrites [] = []"
  by (simp add: dlqWrites_def)
lemma stagesRun_Nil [simp]: "stagesRun [] = []"
  by (simp add: stagesRun_def)
lemma warnings_Nil [simp]: "warnings [] = []"
  by (simp add: warnings_def)
lemma stageCalls_Nil [simp]: "stageCalls [] = []"
  by (simp add: stageCalls_def)

lemma stepFailures_Cons [simp]:
  "stepFailures (x # fx) = (case x of StepFailedLogged n e \<Rightarrow> [(n, e)] | _ \<Rightarrow> []) @ stepFailures fx"
  by (simp add: stepFailures_def)
lemma dlqWrites_Cons [simp]:
  "dlqWrites (x # fx) = (case x of QueueMessage m \<Rightarrow> [m] | _ \<Rightarrow> []) @ dlqWrites fx"
  by (simp add: dlqWrites_def)
lemma stagesRun_Cons [simp]:
  "stagesRun (x # fx) = (case x of RunStepSpan n \<Rightarrow> [n] | _ \<Rightarrow> []) @ stagesRun fx"
  by (simp add: stagesRun_def)
lemma warnings_Cons [simp]:
  "warnings (x # fx) = (case x of IngestionWarningCaptured w \<Rightarrow> [w] | _ \<Rightarrow> []) @ warnings fx"
  by (simp add: warnings_def)
lemma stageCalls_Cons [simp]:
  "stageCalls (x # fx) = (case x of StepCalled n as \<Rightarrow> [(n, as)] | _ \<Rightarrow> []) @ stageCalls fx"
  by (simp add: stageCalls_def)

lemma readMessage_cases:
  "(nullish e \<and> (\<exists>x. readMessage e = Inl x)) \<or> (\<not> nullish e \<and> readMessage e = Inr (message e))"
  by (cases e) (simp_all add: nullish_def readMessage_def)

lemma shouldRetry_not_nullish: "shouldRetry e \<Longrightarrow> \<not> nullish e"
  by (cases e) (simp_all add: nullish_def shouldRetry_def)

lemma settled_bindM:
  assumes "settled (m this)" and "\<And>v this'. settled (f v this')"
  shows "settled (bindM m f this)"
proof (cases "m this")
  case (fields res this' fx)
  show ?thesis
  proof (cases res)
    case (Inl x)
    with fields assms(1) show ?thesis by (simp add: bindM_def settled_def)
  next
    case (Inr v)
    obtain res2 this2 fx2 where f: "f v this' = (res2, this2, fx2)" by (cases "f v this'")
    from assms(2)[of v this'] f have s2: "settled (res2, this2, fx2)" by simp
    from fields Inr assms(1) have s1: "stepFailures fx = [] \<and> dlqWrites fx = []"
      by (simp add: settled_def)
    from s1 s2 have "settled (res2, this2, fx @ fx2)"
      by (simp add: settled_def split: sum.splits thrown.splits)
    with fields Inr f show ?thesis by (simp add: bindM_def)
  qed
qed

lemma settled_runStep: "settled (runStep name step as teamId True this)"
  by (simp add: runStep_def handleError_def settled_def Let_def shouldRetry_def readMessage_def
      nullish_def split: outcome.splits step_error.splits)

lemma settled_registerLastStep: "settled (registerLastStep n as acks this)"
  by (simp add: registerLastStep_def settled_def)

lemma settled_captureIngestionWarning: "settled (captureIngestionWarning t ty d a this)"
  by (simp add: captureIngestionWarning_def settled_def Let_def)

lemma settled_returnM: "settled (returnM v this)"
  by (simp add: returnM_def settled_def)

lemma settled_runStages: "settled (runStages st ev pp acks this)"
  unfolding runStages_def Let_def
  by (auto intro!: settled_bindM settled_runStep settled_registerLastStep
        settled_captureIngestionWarning split: option.splits prod.splits)

lemma settled_runEventPipelineSteps: "settled (runEventPipelineSteps st ev this)"
  unfolding runEventPipelineSteps_def Let_def
  by (auto intro!: settled_bindM settled_runStages settled_registerLastStep
        settled_captureIngestionWarning split: option.splits)

lemma settled_runEventPipeline_try: "settled (runEventPipeline_try st ev this)"
  unfolding runEventPipeline_try_def
  by (auto intro!: settled_bindM settled_runStep settled_registerLastStep settled_returnM
        settled_runEventPipelineSteps simp: emit_def settled_def[of "(Inr (), _, _)"]
        split: option.splits)


lemma plainResult_bindM:
  assumes "\<And>v this' fx. m this = (Inr v, this', fx) \<Longrightarrow> plainResult st ev (f v this')"
  shows "plainResult st ev (bindM m f this)"
proof (cases "m this")
  case (fields res this' fx)
  show ?thesis
  proof (cases res)
    case (Inl x)
    with fields show ?thesis by (simp add: bindM_def plainResult_def)
  next
    case (Inr v)
    obtain res2 this2 fx2 where f: "f v this' = (res2, this2, fx2)" by (cases "f v this'")
    from assms[of v this' fx] fields Inr f have "plainResult st ev (res2, this2, fx @ fx2)"
      by (simp add: plainResult_def split: sum.splits)
    with fields Inr f show ?thesis by (simp add: bindM_def)
  qed
qed

lemma plainResult_registerLastStep:
  "terminalArgs st ev n as \<Longrightarrow> plainResult st ev (registerLastStep n as acks this)"
  by (simp add: registerLastStep_def plainResult_def)

lemma terminalArgs_plugin:
  "n \<in> {''invalidEventForProvidedFlags'', ''clientIngestionWarning'', ''pluginsProcessEventStep''}
   \<Longrightarrow> terminalArgs st ev n [APluginEvent pe]"
  by (auto simp: terminalArgs_def)

lemma terminalArgs_pipeline:
  "n \<in> {''eventDisallowedStep'', ''populateTeamDataStep''}
   \<Longrightarrow> terminalArgs st ev n [APipelineEvent ev]"
  by (auto simp: terminalArgs_def)

lemma runStep_Inr:
  "runStep name step as teamId d this = (Inr v, this', fx) \<Longrightarrow> step this = Returns v"
  by (auto simp: runStep_def handleError_def Let_def split: outcome.splits if_splits sum.splits)

lemma terminalArgs_created:
  assumes "runStep ''createEventStep'' (\<lambda>t. createEventStep st t prepared person pp) as teamId d
             this = (Inr (raw, eventAck), this', fx)"
  shows "terminalArgs st ev ''createEventStep'' [ARawEvent raw]"
proof -
  from runStep_Inr[OF assms]
  have "createEventStep st this prepared person pp = Returns (raw, eventAck)" by simp
  then have "\<exists>raw' t p pn b a. [ARawEvent raw] = [ARawEvent raw'] \<and>
               createEventStep st t p pn b = Returns (raw', a)"
    by (intro exI conjI) (rule refl, assumption)
  then show ?thesis
    by (simp add: terminalArgs_def)
qed

lemma plainResult_runStages: "plainResult st pev (runStages st ev pp acks this)"
  unfolding runStages_def Let_def
  by (auto intro!: plainResult_bindM plainResult_registerLastStep terminalArgs_plugin
        elim: terminalArgs_created split: option.splits prod.splits)

lemma plainResult_runEventPipelineSteps: "plainResult st pev (runEventPipelineSteps st ev this)"
  unfolding runEventPipelineSteps_def Let_def
  by (auto intro!: plainResult_bindM plainResult_runStages plainResult_registerLastStep
        terminalArgs_plugin split: option.splits)

lemma plainResult_counted:
  assumes "\<And>this'. plainResult st ev (m this')"
  shows "plainResult st ev (bindM m (\<lambda>result. bindM (emit e) (\<lambda>_. returnM result)) this)"
  using assms[of this]
  by (auto simp: bindM_def emit_def returnM_def plainResult_def split: prod.splits sum.splits)

lemma plainResult_runEventPipeline_try: "plainResult st ev (runEventPipeline_try st ev this)"
proof (cases "isEventDisallowed this ev")
  case True
  then show ?thesis
    by (simp add: runEventPipeline_try_def plainResult_bindM plainResult_registerLastStep
          terminalArgs_pipeline)
next
  case False
  have "plainResult st ev
          (bindM (case w of
                    Some withTeam \<Rightarrow> runEventPipelineSteps st withTeam
                  | None \<Rightarrow> registerLastStep ''populateTeamDataStep'' [APipelineEvent ev] None)
             (\<lambda>result. bindM (emit EventProcessedAndIngestedCounter) (\<lambda>_. returnM result))
             this')" for w this'
    by (rule plainResult_counted)
       (simp add: plainResult_runEventPipelineSteps plainResult_registerLastStep
          terminalArgs_pipeline split: option.splits)
  with False show ?thesis
    by (simp add: runEventPipeline_try_def plainResult_bindM)
qed

text \<open>
  The four ways \<^verbatim>\<open>runEventPipeline\<close> can end: a result of a path on which no stage failed;
  the result the \<^verbatim>\<open>catch\<close> block builds from \<^verbatim>\<open>StepErrorNoRetry\<close>; the retryable error,
  thrown on; the \<^verbatim>\<open>TypeError\<close> of reading the message of \<^verbatim>\<open>undefined\<close> or \<^verbatim>\<open>null\<close>, thrown on.
\<close>

lemma runEventPipeline_cases:
  assumes "runEventPipeline st ev this = (res, this', fx)"
  shows "(\<exists>r. res = Inr r \<and> error r = None \<and> terminalArgs st ev (lastStep r) (args r) \<and>
              stepFailures fx = [] \<and> dlqWrites fx = [])
       \<or> (\<exists>n e. res = Inr \<lparr>ackPromises = None, lastStep = n, args = [], error = Some (message e)\<rparr>
              \<and> stepFailures fx = [(n, e)] \<and> \<not> shouldRetry e \<and> \<not> nullish e \<and>
              (\<exists>m. dlqWrites fx = [m] \<and> dlq_error m = e \<and>
                   dlq_error_location m = ''plugin_server_ingest_event:'' @ n))
       \<or> (\<exists>n e. res = Inl (Raised e) \<and> stepFailures fx = [(n, e)] \<and> shouldRetry e \<and>
              \<not> nullish e \<and> dlqWrites fx = [])
       \<or> (\<exists>n e x. res = Inl (Raised x) \<and> readMessage e = Inl x \<and> stepFailures fx = [(n, e)] \<and>
              nullish e \<and> \<not> shouldRetry e \<and>
              (\<exists>m. dlqWrites fx = [m] \<and> dlq_error m = e \<and>
                   dlq_error_location m = ''plugin_server_ingest_event:'' @ n))"
proof -
  obtain res0 this1 fx0 where t: "runEventPipeline_try st ev (this\<lparr>originalEvent := ev\<rparr>) = (res0, this1, fx0)"
    by (cases "runEventPipeline_try st ev (this\<lparr>originalEvent := ev\<rparr>)")
  have s: "settled (res0, this1, fx0)"
    using settled_runEventPipeline_try[of st ev "this\<lparr>originalEvent := ev\<rparr>"] t by simp
  have p: "plainResult st ev (res0, this1, fx0)"
    using plainResult_runEventPipeline_try[of st ev "this\<lparr>originalEvent := ev\<rparr>"] t by simp
  show ?thesis
  proof (cases res0)
    case (Inr r)
    with assms t s p show ?thesis
      by (auto simp: runEventPipeline_def settled_def plainResult_def)
  next
    case (Inl x)
    show ?thesis
    proof (cases x)
      case (StepErrorNoRetry n as msg)
      with Inl assms t s show ?thesis
        by (auto simp: runEventPipeline_def settled_def)
    next
      case (Raised e)
      with Inl assms t s show ?thesis
        by (auto simp: runEventPipeline_def settled_def shouldRetry_not_nullish
              dest: shouldRetry_not_nullish)
    qed
  qed
qed

subsection \<open>The runner object across a call\<close>

lemma runnerOf_runStep [simp]: "runnerOf (runStep name step as teamId d this) = this"
  by (simp add: runStep_def handleError_def Let_def split: outcome.splits sum.splits)

lemma runnerOf_handleError [simp]: "runnerOf (handleError e name as teamId d this) = this"
  by (simp add: handleError_def Let_def split: sum.splits)

lemma runnerOf_registerLastStep [simp]: "runnerOf (registerLastStep n as acks this) = this"
  by (simp add: registerLastStep_def)

lemma runnerOf_captureIngestionWarning [simp]:
  "runnerOf (captureIngestionWarning t ty d a this) = this"
  by (simp add: captureIngestionWarning_def Let_def)

lemma runnerOf_bindM:
  assumes "\<And>t. runnerOf (m t) = t" and "\<And>v t. runnerOf (f v t) = t"
  shows "runnerOf (bindM m f this) = this"
proof (cases "m this")
  case (fields res this' fx)
  with assms(1)[of this] have t: "this' = this" by simp
  show ?thesis
  proof (cases res)
    case (Inl x)
    with fields t show ?thesis by (simp add: bindM_def)
  next
    case (Inr v)
    obtain res2 this2 fx2 where f: "f v this = (res2, this2, fx2)" by (cases "f v this")
    with assms(2)[of v this] have "this2 = this" by simp
    with fields t Inr f show ?thesis by (simp add: bindM_def)
  qed
qed

lemma runnerOf_runStages [simp]: "runnerOf (runStages st ev pp acks this) = this"
  unfolding runStages_def Let_def
  by (auto intro!: runnerOf_bindM split: option.splits prod.splits)

lemma runnerOf_warned [simp]:
  assumes "\<And>a t. runnerOf (f a t) = t"
  shows "runnerOf (bindM (captureIngestionWarning tm ty d al) f this) = this"
  by (rule runnerOf_bindM) (simp_all add: assms)

lemma runnerOf_runEventPipelineSteps:
  "runnerOf (runEventPipelineSteps st ev this) =
     (if embraceJoinTeam (hub this) (plugin_team_id ev) then this\<lparr>poEEmbraceJoin := True\<rparr>
      else this)"
proof -
  let ?this = "if embraceJoinTeam (hub this) (plugin_team_id ev) then this\<lparr>poEEmbraceJoin := True\<rparr> else this"
  have "runnerOf (case v of
           None \<Rightarrow> runStages st ev True [] ?this
         | Some propValue \<Rightarrow>
             if propValue = JBool True then runStages st ev True [] ?this
             else if propValue = JBool False then
               (if c then bindM (captureIngestionWarning t1 y1 d1 True) (\<lambda>a. registerLastStep l1 as1 (Some [a])) ?this
                else runStages st ev' False [] ?this)
             else bindM (captureIngestionWarning t2 y2 (d2 propValue) False) (\<lambda>a. runStages st ev True [a]) ?this) = ?this"
    for v c t1 y1 d1 l1 t2 y2 ev' and as1 :: "('a, 'b, 'c, 'd) arg list" and d2
    by (simp split: option.splits)
  then show ?thesis
    unfolding runEventPipelineSteps_def Let_def by (rule trans[OF _ refl]) 
qed


lemma flagRaisedOnly_same: "flagRaisedOnly t t"
  by (simp add: flagRaisedOnly_def)

lemma flagRaisedOnly_refl: "runnerOf out = this \<Longrightarrow> flagRaisedOnly this (runnerOf out)"
  by (simp add: flagRaisedOnly_def)

lemma flagRaisedOnly_bindM:
  assumes "\<And>t. flagRaisedOnly t (runnerOf (m t))" and "\<And>v t. flagRaisedOnly t (runnerOf (f v t))"
  shows "flagRaisedOnly this (runnerOf (bindM m f this))"
proof (cases "m this")
  case (fields res this' fx)
  with assms(1)[of this] have t: "flagRaisedOnly this this'" by simp
  show ?thesis
  proof (cases res)
    case (Inl x)
    with fields t show ?thesis by (simp add: bindM_def)
  next
    case (Inr v)
    obtain res2 this2 fx2 where f: "f v this' = (res2, this2, fx2)" by (cases "f v this'")
    with assms(2)[of this' v] have "flagRaisedOnly this' this2" by simp
    with t have "flagRaisedOnly this this2" by (auto simp: flagRaisedOnly_def)
    with fields Inr f show ?thesis by (simp add: bindM_def)
  qed
qed

lemma flagRaisedOnly_runEventPipelineSteps:
  "flagRaisedOnly this (runnerOf (runEventPipelineSteps st ev this))"
  by (simp add: runnerOf_runEventPipelineSteps flagRaisedOnly_def)

lemma flagRaisedOnly_runStep: "flagRaisedOnly this (runnerOf (runStep name step as teamId d this))"
  by (simp add: flagRaisedOnly_def)

lemma flagRaisedOnly_registerLastStep:
  "flagRaisedOnly this (runnerOf (registerLastStep n as acks this))"
  by (simp add: flagRaisedOnly_def)

lemma flagRaisedOnly_emit: "flagRaisedOnly this (runnerOf (emit e this))"
  by (simp add: flagRaisedOnly_def emit_def)

lemma flagRaisedOnly_returnM: "flagRaisedOnly this (runnerOf (returnM v this))"
  by (simp add: flagRaisedOnly_def returnM_def)

lemma flagRaisedOnly_runEventPipeline_try:
  "flagRaisedOnly this (runnerOf (runEventPipeline_try st ev this))"
  unfolding runEventPipeline_try_def
  by (auto intro!: flagRaisedOnly_bindM flagRaisedOnly_runEventPipelineSteps
        flagRaisedOnly_runStep flagRaisedOnly_registerLastStep flagRaisedOnly_emit
        flagRaisedOnly_returnM flagRaisedOnly_same split: option.splits)

lemma runnerOf_runEventPipeline:
  "runnerOf (runEventPipeline st ev this) = runnerOf (runEventPipeline_try st ev (this\<lparr>originalEvent := ev\<rparr>))"
  by (simp add: runEventPipeline_def split: prod.splits sum.splits thrown.splits)

subsection \<open>Dead-letter failures are reported\<close>

lemma dlqReported_bindM:
  assumes "hub this = h" and "originalEvent this = ev0"
      and "hub (runnerOf (m this)) = h" and "originalEvent (runnerOf (m this)) = ev0"
      and "dlqReported h ev0 (m this)"
      and "\<And>v t. hub t = h \<Longrightarrow> originalEvent t = ev0 \<Longrightarrow> dlqReported h ev0 (f v t)"
  shows "dlqReported h ev0 (bindM m f this)"
proof (cases "m this")
  case (fields res this' fx)
  show ?thesis
  proof (cases res)
    case (Inl x)
    with fields assms(5) show ?thesis by (simp add: bindM_def dlqReported_def)
  next
    case (Inr v)
    obtain res2 this2 fx2 where f: "f v this' = (res2, this2, fx2)" by (cases "f v this'")
    from assms(3,4) fields have "hub this' = h" and "originalEvent this' = ev0" by simp_all
    from assms(6)[OF this, of v] f have "dlqReported h ev0 (res2, this2, fx2)" by simp
    moreover from assms(5) fields have "dlqReported h ev0 (res, this', fx)" by simp
    ultimately have "dlqReported h ev0 (res2, this2, fx @ fx2)"
      by (auto simp: dlqReported_def)
    with fields Inr f show ?thesis by (simp add: bindM_def)
  qed
qed

lemma dlqReported_runStep:
  "hub this = h \<Longrightarrow> originalEvent this = ev0 \<Longrightarrow>
   dlqReported h ev0 (runStep name step as teamId d this)"
  by (auto simp: runStep_def handleError_def dlqReported_def Let_def
        split: outcome.splits sum.splits)

lemma dlqReported_registerLastStep: "dlqReported h ev0 (registerLastStep n as acks this)"
  by (simp add: registerLastStep_def dlqReported_def)

lemma dlqReported_captureIngestionWarning:
  "dlqReported h ev0 (captureIngestionWarning t ty d a this)"
  by (simp add: captureIngestionWarning_def dlqReported_def Let_def)

lemma dlqReported_emit: "dlqWrites [e] = [] \<Longrightarrow> dlqReported h ev0 (emit e this)"
  by (simp add: emit_def dlqReported_def)

lemma dlqReported_returnM: "dlqReported h ev0 (returnM v this)"
  by (simp add: returnM_def dlqReported_def)

lemma runnerOf_emit [simp]: "runnerOf (emit e this) = this"
  by (simp add: emit_def)

lemma dlqReported_runStages:
  "hub this = h \<Longrightarrow> originalEvent this = ev0 \<Longrightarrow>
   dlqReported h ev0 (runStages st ev pp acks this)"
  unfolding runStages_def Let_def
  by (auto intro!: dlqReported_bindM dlqReported_runStep dlqReported_registerLastStep
        dlqReported_captureIngestionWarning split: option.splits prod.splits)

lemma dlqReported_runEventPipelineSteps:
  assumes "hub this = h" and "originalEvent this = ev0"
  shows "dlqReported h ev0 (runEventPipelineSteps st ev this)"
proof -
  let ?routed = "if embraceJoinTeam (hub this) (plugin_team_id ev) then this\<lparr>poEEmbraceJoin := True\<rparr> else this"
  have h: "hub ?routed = h" "originalEvent ?routed = ev0" using assms by simp_all
  have "dlqReported h ev0 (case v of
           None \<Rightarrow> runStages st ev True [] ?routed
         | Some propValue \<Rightarrow>
             if propValue = JBool True then runStages st ev True [] ?routed
             else if propValue = JBool False then
               (if c then bindM (captureIngestionWarning t1 y1 d1 True) (\<lambda>a. registerLastStep l1 as1 (Some [a])) ?routed
                else runStages st ev' False [] ?routed)
             else bindM (captureIngestionWarning t2 y2 (d2 propValue) False) (\<lambda>a. runStages st ev True [a]) ?routed)"
    for v c t1 y1 d1 l1 t2 y2 ev' and as1 :: "('a, 'b, 'c, 'd) arg list" and d2
    using h
    by (auto intro!: dlqReported_bindM dlqReported_runStages dlqReported_registerLastStep
          dlqReported_captureIngestionWarning split: option.splits simp del: split_paired_All)
  then show ?thesis
    unfolding runEventPipelineSteps_def Let_def by (rule back_subst[where P="dlqReported h ev0"]) simp
qed

lemma dlqReported_runEventPipeline_try:
  "hub this = h \<Longrightarrow> originalEvent this = ev0 \<Longrightarrow>
   dlqReported h ev0 (runEventPipeline_try st ev this)"
  unfolding runEventPipeline_try_def
  by (auto intro!: dlqReported_bindM dlqReported_runStep dlqReported_registerLastStep
        dlqReported_runEventPipelineSteps dlqReported_emit dlqReported_returnM
        simp: runnerOf_runEventPipelineSteps split: option.splits)

lemma dlqReported_runEventPipeline:
  "dlqReported (hub this) ev (runEventPipeline st ev this)"
  using dlqReported_runEventPipeline_try[of "this\<lparr>originalEvent := ev\<rparr>" "hub this" ev st ev]
  by (auto simp: runEventPipeline_def dlqReported_def split: prod.splits sum.splits thrown.splits)

subsection \<open>The disallow check, the head of the effects, acknowledgements and warnings\<close>

lemma nat_toString_nonempty: "nat_toString n \<noteq> []"
  by (subst nat_toString.simps) simp

lemma toString_nonempty: "toString i \<noteq> []"
  by (simp add: toString_def nat_toString_nonempty)

lemma isEventDisallowed_listed:
  assumes "eventsToDropByToken (hub this) = Some m"
      and "(\<exists>t. token ev = Some t \<and> t \<noteq> [] \<and> k = t) \<or>
           ((token ev = None \<or> token ev = Some []) \<and> (\<exists>n. team_id ev = Some n \<and> k = toString n))"
      and "m k = Some dropIds"
      and "distinct_id ev \<in> set dropIds \<or> ''*'' \<in> set dropIds"
  shows "isEventDisallowed this ev"
  using assms by (auto simp: isEventDisallowed_def Let_def toString_nonempty)

lemma effectsOf_bindM_prefix: "\<exists>rest. effectsOf (bindM m f this) = effectsOf (m this) @ rest"
  by (auto simp: bindM_def split: prod.splits sum.splits)


lemma stageCalls_runStep_head:
  "\<exists>rest. stageCalls (effectsOf (runStep name step as teamId d this)) = (name, as) # rest"
  by (simp add: runStep_def split: outcome.splits prod.splits)

lemma stageCalls_bindM_runStep_head:
  "\<exists>rest. stageCalls (effectsOf (bindM (runStep name step as teamId d) f this)) = (name, as) # rest"
proof -
  obtain r1 where "effectsOf (bindM (runStep name step as teamId d) f this) =
      effectsOf (runStep name step as teamId d this) @ r1"
    using effectsOf_bindM_prefix by blast
  moreover obtain r2 where
    "stageCalls (effectsOf (runStep name step as teamId d this)) = (name, as) # r2"
    using stageCalls_runStep_head by blast
  ultimately show ?thesis by simp
qed



lemma addAcks_bindM:
  assumes "\<And>v t. f' v t = addAcks acks (f v) t"
  shows "bindM m f' this = addAcks acks (bindM m f) this"
  by (auto simp: bindM_def addAcks_def assms withAcks_def split: prod.splits sum.splits)

lemma addAcks_registerLastStep:
  "addAcks acks (registerLastStep n as (Some xs)) t = registerLastStep n as (Some (acks @ xs)) t"
  by (simp add: addAcks_def registerLastStep_def withAcks_def)

lemma runStages_acks:
  "runStages st ev pp acks this = addAcks acks (runStages st ev pp []) this"
  unfolding runStages_def Let_def
  by (auto intro!: addAcks_bindM simp: addAcks_registerLastStep split: option.splits prod.splits)

lemma onlyAlwaysSend_bindM:
  assumes "onlyAlwaysSend (m this)" and "\<And>v t. onlyAlwaysSend (f v t)"
  shows "onlyAlwaysSend (bindM m f this)"
proof (cases "m this")
  case (fields res this' fx)
  show ?thesis
  proof (cases res)
    case (Inl x)
    with fields assms(1) show ?thesis by (simp add: bindM_def onlyAlwaysSend_def)
  next
    case (Inr v)
    obtain res2 this2 fx2 where f: "f v this' = (res2, this2, fx2)" by (cases "f v this'")
    from assms(2)[of v this'] f have "onlyAlwaysSend (res2, this2, fx2)" by simp
    moreover from assms(1) fields have "onlyAlwaysSend (res, this', fx)" by simp
    ultimately have "onlyAlwaysSend (res2, this2, fx @ fx2)"
      by (auto simp: onlyAlwaysSend_def)
    with fields Inr f show ?thesis by (simp add: bindM_def)
  qed
qed

lemma onlyAlwaysSend_runStep: "onlyAlwaysSend (runStep name step as teamId d this)"
  by (auto simp: runStep_def handleError_def onlyAlwaysSend_def Let_def
        split: outcome.splits sum.splits)

lemma onlyAlwaysSend_registerLastStep: "onlyAlwaysSend (registerLastStep n as acks this)"
  by (simp add: registerLastStep_def onlyAlwaysSend_def)

lemma onlyAlwaysSend_captureIngestionWarning:
  "onlyAlwaysSend (captureIngestionWarning t ty d True this)"
  by (simp add: captureIngestionWarning_def onlyAlwaysSend_def Let_def)

lemma onlyAlwaysSend_runStages: "onlyAlwaysSend (runStages st ev pp acks this)"
  unfolding runStages_def Let_def
  by (auto intro!: onlyAlwaysSend_bindM onlyAlwaysSend_runStep onlyAlwaysSend_registerLastStep
        onlyAlwaysSend_captureIngestionWarning split: option.splits prod.splits)

lemma flagsOn_bindM:
  assumes "flagsOn (m this)" and "\<And>v t. flagsOn (f v t)"
  shows "flagsOn (bindM m f this)"
proof (cases "m this")
  case (fields res this' fx)
  show ?thesis
  proof (cases res)
    case (Inl x)
    with fields assms(1) show ?thesis by (simp add: bindM_def flagsOn_def)
  next
    case (Inr v)
    obtain res2 this2 fx2 where f: "f v this' = (res2, this2, fx2)" by (cases "f v this'")
    from assms(2)[of v this'] f have "flagsOn (res2, this2, fx2)" by simp
    moreover from assms(1) fields have "flagsOn (res, this', fx)" by simp
    ultimately have "flagsOn (res2, this2, fx @ fx2)"
      by (auto simp: flagsOn_def)
    with fields Inr f show ?thesis by (simp add: bindM_def)
  qed
qed

lemma flagsOn_runStep:
  "ABool False \<notin> set as \<Longrightarrow> flagsOn (runStep name step as teamId d this)"
  by (auto simp: runStep_def handleError_def flagsOn_def Let_def split: outcome.splits sum.splits)

lemma flagsOn_registerLastStep: "flagsOn (registerLastStep n as acks this)"
  by (simp add: registerLastStep_def flagsOn_def)

lemma flagsOn_captureIngestionWarning: "flagsOn (captureIngestionWarning t ty d a this)"
  by (simp add: captureIngestionWarning_def flagsOn_def Let_def)

lemma flagsOn_runStages: "flagsOn (runStages st ev True acks this)"
  unfolding runStages_def Let_def
  by (auto intro!: flagsOn_bindM flagsOn_runStep flagsOn_registerLastStep
        flagsOn_captureIngestionWarning split: option.splits prod.splits)

lemma runEventPipelineSteps_default:
  assumes "properties ev = None \<or> (\<exists>props. properties ev = Some props \<and>
             (props ''$process_person'' = None \<or> props ''$process_person'' = Some (JBool True)))"
  shows "runEventPipelineSteps st ev this =
           runStages st ev True []
             (if embraceJoinTeam (hub this) (plugin_team_id ev)
              then this\<lparr>poEEmbraceJoin := True\<rparr> else this)"
  using assms unfolding runEventPipelineSteps_def Let_def
  by (elim disjE exE conjE) (simp_all only: option.case if_True refl)

subsection \<open>What a stage that raises leaves in the effects\<close>

lemma runStep_Throws:
  "step this = Throws e \<Longrightarrow>
   stepFailures (effectsOf (runStep name step as teamId sentToDql this)) = [(name, e)]"
  by (simp add: runStep_def handleError_def Let_def split: outcome.splits sum.splits)

lemma runStep_Returns:
  "step this = Returns v \<Longrightarrow>
   runStep name step as teamId sentToDql this =
     (Inr v, this, [RunStepSpan name, TimeoutGuardArmed name teamId, StepCalled name as,
                    PipelineStepMsSummary name, TimeoutCleared])"
  by (simp add: runStep_def)

subsection \<open>Evaluating the concrete configuration\<close>

lemmas run_defs = runEventPipeline_def runEventPipeline_try_def runEventPipelineSteps_def
  runStages_def runStep_def handleError_def registerLastStep_def captureIngestionWarning_def
  bindM_def returnM_def emit_def isEventDisallowed_def embraceJoinTeam_def shouldRetry_def
  readMessage_def new_EventPipelineRunner_def Let_def

lemmas example_defs = exampleHub_def exampleEvent_def exampleRunner_def resolveTeam_def
  passingStages_def failingStages_def unavailableStages_def refusingHub_def refusingRunner_def
  blockedEvent_def anonymousEvent_def wildcardHub_def identifyEvent_def yesEvent_def routedHub_def
  silentStages_def undefinedStages_def

lemma failing_effects:
  "stepFailures (effectsOf (runEventPipeline failingStages exampleEvent exampleRunner)) =
     [(''prepareEventStep'', OtherError ''boom'')]"
  by (simp add: run_defs example_defs toString_def nat_toString.simps)

lemma unavailable_effects:
  "stepFailures (effectsOf (runEventPipeline unavailableStages exampleEvent exampleRunner)) =
     [(''processPersonsStep'', DependencyUnavailableError ''postgres unavailable'')]"
  by (simp add: run_defs example_defs toString_def nat_toString.simps)

lemma passing_effects:
  "stepFailures (effectsOf (runEventPipeline passingStages exampleEvent exampleRunner)) = []"
  by (simp add: run_defs example_defs toString_def nat_toString.simps)

subsection \<open>The run of the stages when all of them return\<close>

lemma runStages_all_return:
  assumes "event ev \<noteq> ''$$client_ingestion_warning''"
      and "pluginsProcessEventStep st this ev pp = Returns (Some processed)"
      and "normalizeEventStep st processed pp = Returns (normalized, ts)"
      and "processPersonsStep st this normalized ts pp = Returns (postPerson, person)"
      and "prepareEventStep st this postPerson pp = Returns prepared"
      and "createEventStep st this prepared person pp = Returns (raw, eventAck)"
  shows "outcomeOf (runStages st ev pp acks this) =
           Inr \<lparr>ackPromises = Some (acks @ [EventAck eventAck]), lastStep = ''createEventStep'',
                args = [ARawEvent raw], error = None\<rparr> \<and>
         stageCalls (effectsOf (runStages st ev pp acks this)) =
           [(''pluginsProcessEventStep'', [AThis, APluginEvent ev, ABool pp]),
            (''normalizeEventStep'', [APluginEvent processed, ABool pp]),
            (''processPersonsStep'',
               [AThis, APluginEvent normalized, ATimestamp ts, ABool pp]),
            (''prepareEventStep'', [AThis, APluginEvent postPerson, ABool pp]),
            (''createEventStep'', [AThis, APrepared prepared, APerson person, ABool pp])]"
  using assms
  by (simp add: runStages_def bindM_def runStep_def registerLastStep_def Let_def)

lemma stageCalls_runStages_head:
  assumes "event ev \<noteq> ''$$client_ingestion_warning''"
  shows "\<exists>rest. stageCalls (effectsOf (runStages st ev pp acks this)) =
           (''pluginsProcessEventStep'', [AThis, APluginEvent ev, ABool pp]) # rest"
  using assms
  by (simp add: runStages_def Let_def) (rule stageCalls_bindM_runStep_head)

subsection \<open>A refused dead-letter write after an error with a message\<close>

lemma dead_letter_failure_swallowed:
  assumes "(n, e) \<in> set (stepFailures (effectsOf (runEventPipeline st ev this)))"
      and "\<not> shouldRetry e" and "\<not> nullish e"
      and "m \<in> set (dlqWrites (effectsOf (runEventPipeline st ev this)))"
      and "queueMessage (hub this) m = Throws d"
  shows "\<exists>r. outcomeOf (runEventPipeline st ev this) = Inr r \<and> lastStep r = n \<and>
             error r = Some (message e) \<and>
             DlqFailureLogged d \<in> set (effectsOf (runEventPipeline st ev this)) \<and>
             SentryCapturedDlq d \<in> set (effectsOf (runEventPipeline st ev this))"
proof -
  obtain res this' fx where run: "runEventPipeline st ev this = (res, this', fx)"
    by (cases "runEventPipeline st ev this")
  from dlqReported_runEventPipeline[of this ev st] assms(4,5)
  have "DlqFailureLogged d \<in> set (effectsOf (runEventPipeline st ev this)) \<and>
        SentryCapturedDlq d \<in> set (effectsOf (runEventPipeline st ev this))"
    by (simp add: dlqReported_def)
  with runEventPipeline_cases[OF run] assms(1,2,3) run show ?thesis
    by auto
qed

section \<open>The claims\<close>

text \<open>
  In the theorems, ``stage \<open>n\<close> raised \<open>e\<close>'' is read off the effects of the run:
  \<open>(n, e) \<in> set (stepFailures fx)\<close>, the \<^verbatim>\<open>step_failed\<close> entry that the \<^verbatim>\<open>catch\<close> block of
  \<^verbatim>\<open>runStep\<close> logs for exactly the value the stage threw (lemma \<open>runStep_Throws\<close>).
  Every stage is run with the default \<^verbatim>\<open>sentToDql = true\<close>.
\<close>

text \<open>
  C1, as stated: if a stage raises an error that is not the retryable dependency error, the
  run returns a result with that stage's name and a non-empty \<^verbatim>\<open>error\<close> field, after one
  dead-letter write. The \<^verbatim>\<open>error\<close> field is the message of the error, so it is the empty
  string when a stage throws \<^verbatim>\<open>new Error()\<close>.
\<close>

theorem non_retryable_error_counterexample:
  "stepFailures (effectsOf (runEventPipeline silentStages exampleEvent exampleRunner)) =
     [(''prepareEventStep'', OtherError [])] \<and>
   shouldRetry (OtherError []) = False \<and>
   outcomeOf (runEventPipeline silentStages exampleEvent exampleRunner) =
     Inr \<lparr>ackPromises = None, lastStep = ''prepareEventStep'', args = [], error = Some []\<rparr>"
  by (simp add: run_defs example_defs toString_def nat_toString.simps)

text \<open>
  C1, amended: if a stage raises a value that is not the retryable dependency error and is
  neither \<^verbatim>\<open>undefined\<close> nor \<^verbatim>\<open>null\<close>, the run returns a result whose \<^verbatim>\<open>lastStep\<close> is that
  stage's name and whose \<^verbatim>\<open>error\<close> field is set to the message of the error (empty when that
  message is empty), and exactly one dead-letter write was handed to the producer: the one
  for the event, that error and that stage.
\<close>

theorem non_retryable_error_gives_result:
  assumes "(n, e) \<in> set (stepFailures (effectsOf (runEventPipeline st ev this)))"
      and "\<not> shouldRetry e" and "\<not> nullish e"
  shows "\<exists>r m. outcomeOf (runEventPipeline st ev this) = Inr r \<and> lastStep r = n \<and>
             error r = Some (message e) \<and> error r \<noteq> None \<and>
             dlqWrites (effectsOf (runEventPipeline st ev this)) = [m] \<and>
             dlq_event m = ev \<and> dlq_error m = e \<and>
             dlq_error_location m = ''plugin_server_ingest_event:'' @ n"
proof -
  obtain res this' fx where run: "runEventPipeline st ev this = (res, this', fx)"
    by (cases "runEventPipeline st ev this")
  have "\<forall>m \<in> set (dlqWrites fx). dlq_event m = ev"
    using dlqReported_runEventPipeline[of this ev st] run by (simp add: dlqReported_def)
  with runEventPipeline_cases[OF run] assms run show ?thesis
    by auto
qed

theorem non_retryable_error_gives_result_witness:
  "(''prepareEventStep'', OtherError ''boom'')
     \<in> set (stepFailures (effectsOf (runEventPipeline failingStages exampleEvent exampleRunner))) \<and>
   \<not> shouldRetry (OtherError ''boom'') \<and> \<not> nullish (OtherError ''boom'') \<and>
   (\<exists>r. outcomeOf (runEventPipeline failingStages exampleEvent exampleRunner) = Inr r \<and>
        lastStep r = ''prepareEventStep'' \<and> error r = Some ''boom'') \<and>
   (\<exists>m. dlqWrites (effectsOf (runEventPipeline failingStages exampleEvent exampleRunner)) = [m] \<and>
        dlq_event m = exampleEvent)"
proof -
  have h1: "(''prepareEventStep'', OtherError ''boom'')
     \<in> set (stepFailures (effectsOf (runEventPipeline failingStages exampleEvent exampleRunner)))"
    by (simp add: failing_effects)
  have h2: "\<not> shouldRetry (OtherError ''boom'')"
    by (simp add: shouldRetry_def)
  have h3: "\<not> nullish (OtherError ''boom'')"
    by (simp add: nullish_def)
  from non_retryable_error_gives_result[OF h1 h2 h3] h1 h2 h3 show ?thesis
    by auto
qed

text \<open>
  C2. If a stage raises the retryable dependency error, the run throws that same error
  (no result is returned) and no dead-letter write is made.
\<close>

theorem retryable_error_is_rethrown:
  assumes "(n, e) \<in> set (stepFailures (effectsOf (runEventPipeline st ev this)))"
      and "shouldRetry e"
  shows "outcomeOf (runEventPipeline st ev this) = Inl (Raised e) \<and>
         dlqWrites (effectsOf (runEventPipeline st ev this)) = []"
proof -
  obtain res this' fx where run: "runEventPipeline st ev this = (res, this', fx)"
    by (cases "runEventPipeline st ev this")
  from runEventPipeline_cases[OF run] assms run show ?thesis
    by auto
qed

theorem retryable_error_is_rethrown_witness:
  "(''processPersonsStep'', DependencyUnavailableError ''postgres unavailable'')
     \<in> set (stepFailures (effectsOf (runEventPipeline unavailableStages exampleEvent exampleRunner))) \<and>
   shouldRetry (DependencyUnavailableError ''postgres unavailable'') \<and>
   outcomeOf (runEventPipeline unavailableStages exampleEvent exampleRunner) =
     Inl (Raised (DependencyUnavailableError ''postgres unavailable'')) \<and>
   dlqWrites (effectsOf (runEventPipeline unavailableStages exampleEvent exampleRunner)) = []"
proof -
  have h1: "(''processPersonsStep'', DependencyUnavailableError ''postgres unavailable'')
     \<in> set (stepFailures (effectsOf (runEventPipeline unavailableStages exampleEvent exampleRunner)))"
    by (simp add: unavailable_effects)
  have h2: "shouldRetry (DependencyUnavailableError ''postgres unavailable'')"
    by (simp add: shouldRetry_def)
  from retryable_error_is_rethrown[OF h1 h2] h1 h2 show ?thesis
    by simp
qed

text \<open>
  C3, as stated: every input event gives exactly one result, whichever branch is taken.
  It fails where a stage raises the retryable dependency error: the run throws and returns
  no result.
\<close>

theorem result_unless_retryable_counterexample:
  "outcomeOf (runEventPipeline unavailableStages exampleEvent exampleRunner) =
     Inl (Raised (DependencyUnavailableError ''postgres unavailable''))"
  by (simp add: run_defs example_defs toString_def nat_toString.simps)

text \<open>
  C3, amended: for an event on which no stage throws \<^verbatim>\<open>undefined\<close> or \<^verbatim>\<open>null\<close>, the run
  returns a result (one, the run being a function of its inputs) exactly when no stage
  raised the retryable dependency error; when a stage raised it, the run re-throws that
  same error and returns no result.
\<close>

theorem result_unless_retryable:
  assumes "\<forall>ne \<in> set (stepFailures (effectsOf (runEventPipeline st ev this))). \<not> nullish (snd ne)"
  shows "((\<exists>r. outcomeOf (runEventPipeline st ev this) = Inr r) \<longleftrightarrow>
          (\<forall>ne \<in> set (stepFailures (effectsOf (runEventPipeline st ev this))).
             \<not> shouldRetry (snd ne))) \<and>
         (\<forall>ne \<in> set (stepFailures (effectsOf (runEventPipeline st ev this))).
            shouldRetry (snd ne) \<longrightarrow>
            outcomeOf (runEventPipeline st ev this) = Inl (Raised (snd ne)))"
proof -
  obtain res this' fx where run: "runEventPipeline st ev this = (res, this', fx)"
    by (cases "runEventPipeline st ev this")
  from runEventPipeline_cases[OF run] run assms show ?thesis
    by auto
qed

theorem result_unless_retryable_witness:
  "stepFailures (effectsOf (runEventPipeline passingStages exampleEvent exampleRunner)) = [] \<and>
   (\<exists>r. outcomeOf (runEventPipeline passingStages exampleEvent exampleRunner) = Inr r) \<and>
   stepFailures (effectsOf (runEventPipeline unavailableStages exampleEvent exampleRunner)) =
     [(''processPersonsStep'', DependencyUnavailableError ''postgres unavailable'')] \<and>
   nullish (DependencyUnavailableError ''postgres unavailable'') = False \<and>
   shouldRetry (DependencyUnavailableError ''postgres unavailable'') \<and>
   outcomeOf (runEventPipeline unavailableStages exampleEvent exampleRunner) =
     Inl (Raised (DependencyUnavailableError ''postgres unavailable''))"
proof -
  have p: "\<forall>ne \<in> set (stepFailures (effectsOf
              (runEventPipeline passingStages exampleEvent exampleRunner))). \<not> nullish (snd ne)"
    by (simp add: passing_effects)
  have u: "\<forall>ne \<in> set (stepFailures (effectsOf
              (runEventPipeline unavailableStages exampleEvent exampleRunner))). \<not> nullish (snd ne)"
    by (simp add: unavailable_effects nullish_def)
  from result_unless_retryable[OF p] result_unless_retryable[OF u] show ?thesis
    by (simp add: passing_effects unavailable_effects nullish_def shouldRetry_def)
qed

text \<open>
  C4. An event whose distinct id, or the wildcard \<open>*\<close>, is in the drop list under its key
  (the token when it is present and not empty, the team id as a decimal string otherwise)
  ends at \<^verbatim>\<open>eventDisallowedStep\<close> with no acknowledgement handles; the only effects are the
  dropped-event counter and the last-step counter, so no stage is started.
\<close>

theorem disallowed_event_is_dropped:
  assumes "eventsToDropByToken (hub this) = Some m"
      and "(\<exists>t. token ev = Some t \<and> t \<noteq> [] \<and> k = t) \<or>
           ((token ev = None \<or> token ev = Some []) \<and> (\<exists>n. team_id ev = Some n \<and> k = toString n))"
      and "m k = Some dropIds"
      and "distinct_id ev \<in> set dropIds \<or> ''*'' \<in> set dropIds"
  shows "outcomeOf (runEventPipeline st ev this) =
           Inr \<lparr>ackPromises = None, lastStep = ''eventDisallowedStep'',
                args = [APipelineEvent ev], error = None\<rparr> \<and>
         effectsOf (runEventPipeline st ev this) =
           [EventDroppedCounter ''analytics'' ''disallowed'',
            PipelineLastStepCounter ''eventDisallowedStep''] \<and>
         stagesRun (effectsOf (runEventPipeline st ev this)) = []"
proof -
  have "isEventDisallowed (this\<lparr>originalEvent := ev\<rparr>) ev"
    by (rule isEventDisallowed_listed[where m=m and k=k and dropIds=dropIds])
       (use assms in simp_all)
  then have "runEventPipeline_try st ev (this\<lparr>originalEvent := ev\<rparr>) =
      (Inr \<lparr>ackPromises = None, lastStep = ''eventDisallowedStep'',
            args = [APipelineEvent ev], error = None\<rparr>, this\<lparr>originalEvent := ev\<rparr>,
       [EventDroppedCounter ''analytics'' ''disallowed'',
        PipelineLastStepCounter ''eventDisallowedStep''])"
    by (simp add: runEventPipeline_try_def bindM_def emit_def registerLastStep_def)
  then show ?thesis
    by (simp add: runEventPipeline_def)
qed

theorem disallowed_event_is_dropped_witness:
  "eventsToDropByToken (hub exampleRunner) = Some [''phc_blocked'' \<mapsto> [''spammer'']] \<and>
   token blockedEvent = Some ''phc_blocked'' \<and>
   [''phc_blocked'' \<mapsto> [''spammer'']] ''phc_blocked'' = Some [''spammer''] \<and>
   distinct_id blockedEvent \<in> set [''spammer''] \<and>
   outcomeOf (runEventPipeline passingStages blockedEvent exampleRunner) =
     Inr \<lparr>ackPromises = None, lastStep = ''eventDisallowedStep'',
          args = [APipelineEvent blockedEvent], error = None\<rparr> \<and>
   stagesRun (effectsOf (runEventPipeline passingStages blockedEvent exampleRunner)) = []"
proof -
  have h1: "eventsToDropByToken (hub exampleRunner) = Some [''phc_blocked'' \<mapsto> [''spammer'']]"
    by (simp add: example_defs new_EventPipelineRunner_def)
  have h2: "(\<exists>t. token blockedEvent = Some t \<and> t \<noteq> [] \<and> ''phc_blocked'' = t) \<or>
           ((token blockedEvent = None \<or> token blockedEvent = Some []) \<and>
            (\<exists>n. team_id blockedEvent = Some n \<and> ''phc_blocked'' = toString n))"
    by (simp add: blockedEvent_def example_defs)
  have h3: "[''phc_blocked'' \<mapsto> [''spammer'']] ''phc_blocked'' = Some [''spammer'']"
    by simp
  have h4: "distinct_id blockedEvent \<in> set [''spammer''] \<or> ''*'' \<in> set [''spammer'']"
    by (simp add: blockedEvent_def example_defs)
  from disallowed_event_is_dropped[OF h1 h2 h3 h4, of passingStages] h1 h3 show ?thesis
    by (simp add: blockedEvent_def example_defs)
qed

text \<open>
  C5. For an event whose \<^verbatim>\<open>$process_person\<close> is the boolean false and whose name is one of
  \<^verbatim>\<open>$identify\<close>, \<^verbatim>\<open>$create_alias\<close>, \<^verbatim>\<open>$merge_dangerously\<close>, \<^verbatim>\<open>$groupidentify\<close>, the main
  sequence ends at once at \<^verbatim>\<open>invalidEventForProvidedFlags\<close>; the result holds exactly one
  acknowledgement handle, that of an always-sent warning, and no stage is started.
\<close>

theorem invalid_event_for_flags:
  assumes "properties ev = Some props"
      and "props ''$process_person'' = Some (JBool False)"
      and "event ev \<in> {''$identify'', ''$create_alias'', ''$merge_dangerously'', ''$groupidentify''}"
  shows "\<exists>w. alwaysSend w \<and>
           warning_type w = ''invalid_event_when_process_person_is_false'' \<and>
           outcomeOf (runEventPipelineSteps st ev this) =
             Inr \<lparr>ackPromises = Some [WarningAck w], lastStep = ''invalidEventForProvidedFlags'',
                  args = [APluginEvent ev], error = None\<rparr> \<and>
           effectsOf (runEventPipelineSteps st ev this) =
             [IngestionWarningCaptured w, PipelineLastStepCounter ''invalidEventForProvidedFlags''] \<and>
           stagesRun (effectsOf (runEventPipelineSteps st ev this)) = []"
proof -
  have c: "event ev \<in> set [''$identify'', ''$create_alias'', ''$merge_dangerously'', ''$groupidentify'']"
    using assms(3) by simp
  show ?thesis
    unfolding runEventPipelineSteps_def Let_def
    apply (simp only: assms(1,2) c option.case if_True)
    apply (simp add: bindM_def captureIngestionWarning_def registerLastStep_def Let_def)
    done
qed

theorem invalid_event_for_flags_witness:
  "properties identifyEvent = Some [''$process_person'' \<mapsto> JBool False] \<and>
   [''$process_person'' \<mapsto> JBool False] ''$process_person'' = Some (JBool False) \<and>
   event identifyEvent \<in> {''$identify'', ''$create_alias'', ''$merge_dangerously'', ''$groupidentify''} \<and>
   (\<exists>w. alwaysSend w \<and>
      outcomeOf (runEventPipelineSteps passingStages identifyEvent exampleRunner) =
        Inr \<lparr>ackPromises = Some [WarningAck w], lastStep = ''invalidEventForProvidedFlags'',
             args = [APluginEvent identifyEvent], error = None\<rparr> \<and>
      stagesRun (effectsOf (runEventPipelineSteps passingStages identifyEvent exampleRunner)) = [])"
proof -
  have h1: "properties identifyEvent = Some [''$process_person'' \<mapsto> JBool False]"
    by (simp add: identifyEvent_def)
  have h2: "[''$process_person'' \<mapsto> JBool False] ''$process_person'' = Some (JBool False)"
    by simp
  have h3: "event identifyEvent \<in> {''$identify'', ''$create_alias'', ''$merge_dangerously'', ''$groupidentify''}"
    by (simp add: identifyEvent_def)
  from invalid_event_for_flags[OF h1 h2 h3, of passingStages exampleRunner] h1 h2 h3
  show ?thesis by blast
qed

text \<open>
  C6. For an event whose \<^verbatim>\<open>$process_person\<close> is present and is neither boolean:
  one warning with \<^verbatim>\<open>alwaysSend: false\<close> is emitted, the only best-effort warning of the
  run; no stage is called with a flag that is false; unless the event is a client
  ingestion warning, the first stage called is the plugin stage, on the unchanged event and
  with the deprecated plugins on; and when the stages all return for person processing on,
  all five are called in order with that flag and the run ends at \<^verbatim>\<open>createEventStep\<close> with
  the acknowledgement of the warning followed by that of the write. The whole run is what
  the absent property gives (lemma \<open>runEventPipelineSteps_default\<close>) with the warning in
  front.
\<close>

theorem invalid_process_person_value:
  assumes "properties ev = Some props"
      and "props ''$process_person'' = Some v"
      and "v \<noteq> JBool True" and "v \<noteq> JBool False"
  shows "\<exists>w. warning_type w = ''invalid_process_person'' \<and> \<not> alwaysSend w \<and>
           [w' \<leftarrow> warnings (effectsOf (runEventPipelineSteps st ev this)). \<not> alwaysSend w'] = [w] \<and>
           (\<forall>call \<in> set (stageCalls (effectsOf (runEventPipelineSteps st ev this))).
              ABool False \<notin> set (snd call)) \<and>
           (event ev \<noteq> ''$$client_ingestion_warning'' \<longrightarrow>
              (\<exists>rest. stageCalls (effectsOf (runEventPipelineSteps st ev this)) =
                 (''pluginsProcessEventStep'', [AThis, APluginEvent ev, ABool True]) # rest)) \<and>
           (\<forall>routed processed normalized ts postPerson person prepared raw eventAck.
              routed = (if embraceJoinTeam (hub this) (plugin_team_id ev)
                        then this\<lparr>poEEmbraceJoin := True\<rparr> else this) \<and>
              event ev \<noteq> ''$$client_ingestion_warning'' \<and>
              pluginsProcessEventStep st routed ev True = Returns (Some processed) \<and>
              normalizeEventStep st processed True = Returns (normalized, ts) \<and>
              processPersonsStep st routed normalized ts True = Returns (postPerson, person) \<and>
              prepareEventStep st routed postPerson True = Returns prepared \<and>
              createEventStep st routed prepared person True = Returns (raw, eventAck) \<longrightarrow>
              outcomeOf (runEventPipelineSteps st ev this) =
                Inr \<lparr>ackPromises = Some [WarningAck w, EventAck eventAck],
                     lastStep = ''createEventStep'', args = [ARawEvent raw], error = None\<rparr> \<and>
              stageCalls (effectsOf (runEventPipelineSteps st ev this)) =
                [(''pluginsProcessEventStep'', [AThis, APluginEvent ev, ABool True]),
                 (''normalizeEventStep'', [APluginEvent processed, ABool True]),
                 (''processPersonsStep'',
                    [AThis, APluginEvent normalized, ATimestamp ts, ABool True]),
                 (''prepareEventStep'', [AThis, APluginEvent postPerson, ABool True]),
                 (''createEventStep'',
                    [AThis, APrepared prepared, APerson person, ABool True])]) \<and>
           runEventPipelineSteps st ev this =
             (case runStages st ev True []
                     (if embraceJoinTeam (hub this) (plugin_team_id ev)
                      then this\<lparr>poEEmbraceJoin := True\<rparr> else this) of
                (res, this', fx) \<Rightarrow>
                  (withAcks [WarningAck w] res, this', IngestionWarningCaptured w # fx))"
proof -
  let ?routed = "if embraceJoinTeam (hub this) (plugin_team_id ev)
                 then this\<lparr>poEEmbraceJoin := True\<rparr> else this"
  define w where "w = \<lparr>warning_team_id = plugin_team_id ev, warning_type = ''invalid_process_person'',
       warning_details =
         [(''eventUuid'', JStr (uuid ev)), (''event'', JStr (event ev)),
          (''distinctId'', JStr (distinct_id ev)), (''$process_person'', v),
          (''message'', JStr ''Only a boolean value is valid for the $process_person property'')],
       alwaysSend = False\<rparr>"
  have w1: "warning_type w = ''invalid_process_person''" and w2: "\<not> alwaysSend w"
    by (simp_all add: w_def)
  obtain res this' fx where tail: "runStages st ev True [] ?routed = (res, this', fx)"
    by (cases "runStages st ev True [] ?routed")
  have quiet: "\<forall>w' \<in> set (warnings fx). alwaysSend w'"
    using onlyAlwaysSend_runStages[of st ev True "[]" ?routed] tail
    by (simp add: onlyAlwaysSend_def)
  have flags: "\<forall>call \<in> set (stageCalls fx). ABool False \<notin> set (snd call)"
    using flagsOn_runStages[of st ev "[]" ?routed] tail
    by (simp add: flagsOn_def)
  have "runEventPipelineSteps st ev this =
          bindM (captureIngestionWarning (plugin_team_id ev) ''invalid_process_person''
                   (warning_details w) False)
            (\<lambda>a. runStages st ev True [a]) ?routed"
    unfolding runEventPipelineSteps_def Let_def w_def
    by (simp only: assms option.case if_False ingestion_warning.simps)
  also have "\<dots> = (withAcks [WarningAck w] res, this', IngestionWarningCaptured w # fx)"
    using tail runStages_acks[of st ev True "[WarningAck w]" ?routed]
    by (simp add: bindM_def captureIngestionWarning_def Let_def addAcks_def w_def)
  finally have run: "runEventPipelineSteps st ev this =
      (withAcks [WarningAck w] res, this', IngestionWarningCaptured w # fx)" .
  have only: "[w' \<leftarrow> warnings (effectsOf (runEventPipelineSteps st ev this)). \<not> alwaysSend w'] = [w]"
    using quiet w2 by (simp add: run filter_empty_conv)
  have calls: "stageCalls (effectsOf (runEventPipelineSteps st ev this)) = stageCalls fx"
    by (simp add: run)
  have head: "event ev \<noteq> ''$$client_ingestion_warning'' \<longrightarrow>
      (\<exists>rest. stageCalls (effectsOf (runEventPipelineSteps st ev this)) =
         (''pluginsProcessEventStep'', [AThis, APluginEvent ev, ABool True]) # rest)"
    using stageCalls_runStages_head[of ev st True "[]" ?routed] tail calls by simp
  have flags': "\<forall>call \<in> set (stageCalls (effectsOf (runEventPipelineSteps st ev this))).
                  ABool False \<notin> set (snd call)"
    using flags by (simp only: calls)
  have full: "\<forall>routed processed normalized ts postPerson person prepared raw eventAck.
              routed = ?routed \<and>
              event ev \<noteq> ''$$client_ingestion_warning'' \<and>
              pluginsProcessEventStep st routed ev True = Returns (Some processed) \<and>
              normalizeEventStep st processed True = Returns (normalized, ts) \<and>
              processPersonsStep st routed normalized ts True = Returns (postPerson, person) \<and>
              prepareEventStep st routed postPerson True = Returns prepared \<and>
              createEventStep st routed prepared person True = Returns (raw, eventAck) \<longrightarrow>
              outcomeOf (runEventPipelineSteps st ev this) =
                Inr \<lparr>ackPromises = Some [WarningAck w, EventAck eventAck],
                     lastStep = ''createEventStep'', args = [ARawEvent raw], error = None\<rparr> \<and>
              stageCalls (effectsOf (runEventPipelineSteps st ev this)) =
                [(''pluginsProcessEventStep'', [AThis, APluginEvent ev, ABool True]),
                 (''normalizeEventStep'', [APluginEvent processed, ABool True]),
                 (''processPersonsStep'',
                    [AThis, APluginEvent normalized, ATimestamp ts, ABool True]),
                 (''prepareEventStep'', [AThis, APluginEvent postPerson, ABool True]),
                 (''createEventStep'',
                    [AThis, APrepared prepared, APerson person, ABool True])]"
  proof (intro allI impI, elim conjE)
    fix routed processed normalized ts postPerson person prepared raw eventAck
    assume r: "routed = ?routed"
      and c: "event ev \<noteq> ''$$client_ingestion_warning''"
      and s1: "pluginsProcessEventStep st routed ev True = Returns (Some processed)"
      and s2: "normalizeEventStep st processed True = Returns (normalized, ts)"
      and s3: "processPersonsStep st routed normalized ts True = Returns (postPerson, person)"
      and s4: "prepareEventStep st routed postPerson True = Returns prepared"
      and s5: "createEventStep st routed prepared person True = Returns (raw, eventAck)"
    have t: "runStages st ev True [] routed = (res, this', fx)"
      using tail by (simp only: r)
    from runStages_all_return[OF c s1 s2 s3 s4 s5, of "[]"]
    have o: "res = Inr \<lparr>ackPromises = Some ([] @ [EventAck eventAck]),
                       lastStep = ''createEventStep'', args = [ARawEvent raw], error = None\<rparr>"
      and k: "stageCalls fx =
                [(''pluginsProcessEventStep'', [AThis, APluginEvent ev, ABool True]),
                 (''normalizeEventStep'', [APluginEvent processed, ABool True]),
                 (''processPersonsStep'',
                    [AThis, APluginEvent normalized, ATimestamp ts, ABool True]),
                 (''prepareEventStep'', [AThis, APluginEvent postPerson, ABool True]),
                 (''createEventStep'',
                    [AThis, APrepared prepared, APerson person, ABool True])]"
      by (simp_all only: t fst_conv snd_conv)
    have "outcomeOf (runEventPipelineSteps st ev this) =
            Inr \<lparr>ackPromises = Some [WarningAck w, EventAck eventAck],
                 lastStep = ''createEventStep'', args = [ARawEvent raw], error = None\<rparr>"
      by (simp add: run o withAcks_def)
    moreover have "stageCalls (effectsOf (runEventPipelineSteps st ev this)) =
                [(''pluginsProcessEventStep'', [AThis, APluginEvent ev, ABool True]),
                 (''normalizeEventStep'', [APluginEvent processed, ABool True]),
                 (''processPersonsStep'',
                    [AThis, APluginEvent normalized, ATimestamp ts, ABool True]),
                 (''prepareEventStep'', [AThis, APluginEvent postPerson, ABool True]),
                 (''createEventStep'',
                    [AThis, APrepared prepared, APerson person, ABool True])]"
      by (simp only: calls k)
    ultimately show "outcomeOf (runEventPipelineSteps st ev this) =
                Inr \<lparr>ackPromises = Some [WarningAck w, EventAck eventAck],
                     lastStep = ''createEventStep'', args = [ARawEvent raw], error = None\<rparr> \<and>
              stageCalls (effectsOf (runEventPipelineSteps st ev this)) =
                [(''pluginsProcessEventStep'', [AThis, APluginEvent ev, ABool True]),
                 (''normalizeEventStep'', [APluginEvent processed, ABool True]),
                 (''processPersonsStep'',
                    [AThis, APluginEvent normalized, ATimestamp ts, ABool True]),
                 (''prepareEventStep'', [AThis, APluginEvent postPerson, ABool True]),
                 (''createEventStep'',
                    [AThis, APrepared prepared, APerson person, ABool True])]"
      by (rule conjI)
  qed
  have last: "runEventPipelineSteps st ev this =
             (case runStages st ev True [] ?routed of
                (res, this', fx) \<Rightarrow>
                  (withAcks [WarningAck w] res, this', IngestionWarningCaptured w # fx))"
    by (simp only: run tail prod.case)
  show ?thesis
    apply (rule exI[of _ w])
    apply (intro conjI)
         apply (rule w1)
        apply (rule w2)
       apply (rule only)
      apply (rule flags')
     apply (rule head)
    apply (rule full)
    apply (rule last)
    done
qed

theorem invalid_process_person_value_witness:
  "properties yesEvent = Some [''$process_person'' \<mapsto> JStr ''yes''] \<and>
   [''$process_person'' \<mapsto> JStr ''yes''] ''$process_person'' = Some (JStr ''yes'') \<and>
   JStr ''yes'' \<noteq> JBool True \<and> JStr ''yes'' \<noteq> JBool False \<and>
   event yesEvent \<noteq> ''$$client_ingestion_warning'' \<and>
   pluginsProcessEventStep passingStages exampleRunner yesEvent True = Returns (Some yesEvent) \<and>
   createEventStep passingStages exampleRunner yesEvent ''person'' True = Returns (yesEvent, 7) \<and>
   (\<exists>w. \<not> alwaysSend w \<and>
      [w' \<leftarrow> warnings (effectsOf (runEventPipelineSteps passingStages yesEvent exampleRunner)).
         \<not> alwaysSend w'] = [w] \<and>
      outcomeOf (runEventPipelineSteps passingStages yesEvent exampleRunner) =
        Inr \<lparr>ackPromises = Some [WarningAck w, EventAck 7], lastStep = ''createEventStep'',
             args = [ARawEvent yesEvent], error = None\<rparr> \<and>
      stageCalls (effectsOf (runEventPipelineSteps passingStages yesEvent exampleRunner)) =
        [(''pluginsProcessEventStep'', [AThis, APluginEvent yesEvent, ABool True]),
         (''normalizeEventStep'', [APluginEvent yesEvent, ABool True]),
         (''processPersonsStep'', [AThis, APluginEvent yesEvent, ATimestamp 0, ABool True]),
         (''prepareEventStep'', [AThis, APluginEvent yesEvent, ABool True]),
         (''createEventStep'', [AThis, APrepared yesEvent, APerson ''person'', ABool True])])"
proof -
  have h1: "properties yesEvent = Some [''$process_person'' \<mapsto> JStr ''yes'']"
    by (simp add: yesEvent_def)
  have h2: "[''$process_person'' \<mapsto> JStr ''yes''] ''$process_person'' = Some (JStr ''yes'')"
    by simp
  have h3: "JStr ''yes'' \<noteq> JBool True" by simp
  have h4: "JStr ''yes'' \<noteq> JBool False" by simp
  have r: "exampleRunner =
           (if embraceJoinTeam (hub exampleRunner) (plugin_team_id yesEvent)
            then exampleRunner\<lparr>poEEmbraceJoin := True\<rparr> else exampleRunner)"
    by (simp add: example_defs embraceJoinTeam_def new_EventPipelineRunner_def)
  have s1: "event yesEvent \<noteq> ''$$client_ingestion_warning''"
    by (simp add: yesEvent_def)
  have s2: "pluginsProcessEventStep passingStages exampleRunner yesEvent True =
              Returns (Some yesEvent)"
    by (simp add: passingStages_def)
  have s3: "normalizeEventStep passingStages yesEvent True = Returns (yesEvent, 0)"
    by (simp add: passingStages_def)
  have s4: "processPersonsStep passingStages exampleRunner yesEvent 0 True =
              Returns (yesEvent, ''person'')"
    by (simp add: passingStages_def)
  have s5: "prepareEventStep passingStages exampleRunner yesEvent True = Returns yesEvent"
    by (simp add: passingStages_def)
  have s6: "createEventStep passingStages exampleRunner yesEvent ''person'' True =
              Returns (yesEvent, 7)"
    by (simp add: passingStages_def)
  from invalid_process_person_value[OF h1 h2 h3 h4, of passingStages exampleRunner]
  obtain w where a: "\<not> alwaysSend w"
    and b: "[w' \<leftarrow> warnings (effectsOf (runEventPipelineSteps passingStages yesEvent exampleRunner)).
              \<not> alwaysSend w'] = [w]"
    and c: "\<forall>routed processed normalized ts postPerson person prepared raw eventAck.
              routed = (if embraceJoinTeam (hub exampleRunner) (plugin_team_id yesEvent)
                        then exampleRunner\<lparr>poEEmbraceJoin := True\<rparr> else exampleRunner) \<and>
              event yesEvent \<noteq> ''$$client_ingestion_warning'' \<and>
              pluginsProcessEventStep passingStages routed yesEvent True = Returns (Some processed) \<and>
              normalizeEventStep passingStages processed True = Returns (normalized, ts) \<and>
              processPersonsStep passingStages routed normalized ts True = Returns (postPerson, person) \<and>
              prepareEventStep passingStages routed postPerson True = Returns prepared \<and>
              createEventStep passingStages routed prepared person True = Returns (raw, eventAck) \<longrightarrow>
              outcomeOf (runEventPipelineSteps passingStages yesEvent exampleRunner) =
                Inr \<lparr>ackPromises = Some [WarningAck w, EventAck eventAck],
                     lastStep = ''createEventStep'', args = [ARawEvent raw], error = None\<rparr> \<and>
              stageCalls (effectsOf (runEventPipelineSteps passingStages yesEvent exampleRunner)) =
                [(''pluginsProcessEventStep'', [AThis, APluginEvent yesEvent, ABool True]),
                 (''normalizeEventStep'', [APluginEvent processed, ABool True]),
                 (''processPersonsStep'',
                    [AThis, APluginEvent normalized, ATimestamp ts, ABool True]),
                 (''prepareEventStep'', [AThis, APluginEvent postPerson, ABool True]),
                 (''createEventStep'',
                    [AThis, APrepared prepared, APerson person, ABool True])]"
    by (elim exE conjE) (rule that)
  have ante: "exampleRunner =
                (if embraceJoinTeam (hub exampleRunner) (plugin_team_id yesEvent)
                 then exampleRunner\<lparr>poEEmbraceJoin := True\<rparr> else exampleRunner) \<and>
              event yesEvent \<noteq> ''$$client_ingestion_warning'' \<and>
              pluginsProcessEventStep passingStages exampleRunner yesEvent True =
                Returns (Some yesEvent) \<and>
              normalizeEventStep passingStages yesEvent True = Returns (yesEvent, 0) \<and>
              processPersonsStep passingStages exampleRunner yesEvent 0 True =
                Returns (yesEvent, ''person'') \<and>
              prepareEventStep passingStages exampleRunner yesEvent True = Returns yesEvent \<and>
              createEventStep passingStages exampleRunner yesEvent ''person'' True =
                Returns (yesEvent, 7)"
    by (intro conjI r s1 s2 s3 s4 s5 s6)
  note d = c[rule_format, OF ante]
  have ex: "\<exists>w. \<not> alwaysSend w \<and>
      [w' \<leftarrow> warnings (effectsOf (runEventPipelineSteps passingStages yesEvent exampleRunner)).
         \<not> alwaysSend w'] = [w] \<and>
      outcomeOf (runEventPipelineSteps passingStages yesEvent exampleRunner) =
        Inr \<lparr>ackPromises = Some [WarningAck w, EventAck 7], lastStep = ''createEventStep'',
             args = [ARawEvent yesEvent], error = None\<rparr> \<and>
      stageCalls (effectsOf (runEventPipelineSteps passingStages yesEvent exampleRunner)) =
        [(''pluginsProcessEventStep'', [AThis, APluginEvent yesEvent, ABool True]),
         (''normalizeEventStep'', [APluginEvent yesEvent, ABool True]),
         (''processPersonsStep'', [AThis, APluginEvent yesEvent, ATimestamp 0, ABool True]),
         (''prepareEventStep'', [AThis, APluginEvent yesEvent, ABool True]),
         (''createEventStep'', [AThis, APrepared yesEvent, APerson ''person'', ABool True])]"
    by (rule exI[of _ w]) (intro conjI a b d[THEN conjunct1] d[THEN conjunct2])
  show ?thesis
    by (intro conjI h1 h2 h3 h4 s1 s2 s6 ex)
qed




text \<open>
  C8. The claim: when the dead-letter write made for a failed stage is itself refused, the
  run still returns the result carrying the failing stage's name and error. For an error
  with a message it does (lemma \<open>dead_letter_failure_swallowed\<close>). For a stage that rejects
  with \<^verbatim>\<open>undefined\<close> it does not: the refused write is logged, reported and swallowed, then
  reading \<^verbatim>\<open>err.message\<close> for the \<^verbatim>\<open>StepErrorNoRetry\<close> raises a \<^verbatim>\<open>TypeError\<close>, and the run
  throws it.
\<close>

theorem dead_letter_failure_then_type_error:
  "stepFailures (effectsOf (runEventPipeline undefinedStages exampleEvent refusingRunner)) =
     [(''prepareEventStep'', ThrownUndefined)] \<and>
   shouldRetry ThrownUndefined = False \<and>
   dlqWrites (effectsOf (runEventPipeline undefinedStages exampleEvent refusingRunner)) =
     [\<lparr>dlq_event = exampleEvent, dlq_error = ThrownUndefined, dlq_team_id = 1,
       dlq_error_location = ''plugin_server_ingest_event:prepareEventStep''\<rparr>] \<and>
   DlqFailureLogged (OtherError ''kafka down'')
     \<in> set (effectsOf (runEventPipeline undefinedStages exampleEvent refusingRunner)) \<and>
   outcomeOf (runEventPipeline undefinedStages exampleEvent refusingRunner) =
     Inl (Raised (OtherError ''Cannot read properties of undefined (reading 'message')''))"
  by (simp add: run_defs example_defs toString_def nat_toString.simps)



text \<open>
  C10. The embrace-join flag only goes up: the constructor sets it to what it is given,
  \<^verbatim>\<open>runEventPipelineSteps\<close> leaves it as it is or sets it to true (when the routing check
  holds for the event's team), \<^verbatim>\<open>runEventPipeline\<close> leaves it or sets it to true, and
  \<^verbatim>\<open>runStep\<close> and \<^verbatim>\<open>registerLastStep\<close> leave it alone.
\<close>

theorem embrace_join_flag_monotone:
  "poEEmbraceJoin (new_EventPipelineRunner h ev0 b) = b \<and>
   poEEmbraceJoin (runnerOf (runEventPipelineSteps st pev this)) =
     (poEEmbraceJoin this \<or> embraceJoinTeam (hub this) (plugin_team_id pev)) \<and>
   (poEEmbraceJoin (runnerOf (runEventPipeline st ev this)) = poEEmbraceJoin this \<or>
    poEEmbraceJoin (runnerOf (runEventPipeline st ev this)) = True) \<and>
   poEEmbraceJoin (runnerOf (runStep name step as teamId d this)) = poEEmbraceJoin this \<and>
   poEEmbraceJoin (runnerOf (registerLastStep n as' acks this)) = poEEmbraceJoin this"
  using flagRaisedOnly_runEventPipeline_try[of "this\<lparr>originalEvent := ev\<rparr>" st ev]
  by (auto simp: new_EventPipelineRunner_def runnerOf_runEventPipelineSteps
        runnerOf_runEventPipeline flagRaisedOnly_def)

theorem embrace_join_flag_monotone_witness:
  "poEEmbraceJoin (new_EventPipelineRunner routedHub exampleEvent False) = False \<and>
   poEEmbraceJoin
     (runnerOf (runEventPipelineSteps passingStages identifyEvent
                  (new_EventPipelineRunner routedHub exampleEvent False))) = True \<and>
   poEEmbraceJoin
     (runnerOf (runEventPipelineSteps passingStages identifyEvent
                  (new_EventPipelineRunner routedHub exampleEvent True))) = True"
  using embrace_join_flag_monotone[of routedHub exampleEvent False passingStages identifyEvent
          "new_EventPipelineRunner routedHub exampleEvent False"]
        embrace_join_flag_monotone[of routedHub exampleEvent True passingStages identifyEvent
          "new_EventPipelineRunner routedHub exampleEvent True"]
  by (simp add: example_defs new_EventPipelineRunner_def embraceJoinTeam_def)

end
